theory Spec2Isabelle
  imports Main "HOL-Library.Word"
begin

section \<open>The request-dispatch layer of \<^verbatim>\<open>src/http_server.cpp\<close>\<close>

text \<open>
  The development embeds the dispatcher (\<^verbatim>\<open>HttpServer::catch_all_handler\<close> with
  \<^verbatim>\<open>parse_query\<close>, \<^verbatim>\<open>send_response\<close>, \<^verbatim>\<open>send_401_unauthorized\<close> and the route
  registration functions), the streaming generator (\<^verbatim>\<open>stream_response\<close>,
  \<^verbatim>\<open>response_proceed\<close>, \<^verbatim>\<open>response_stop\<close>) and the message relay (\<^verbatim>\<open>on\<close>,
  \<^verbatim>\<open>send_message\<close>, \<^verbatim>\<open>on_message\<close>, the drain of \<^verbatim>\<open>~HttpServer\<close>).

  Every call into the transport library (\<^verbatim>\<open>h2o_start_response\<close>, \<^verbatim>\<open>h2o_send\<close>,
  \<^verbatim>\<open>h2o_dispose_request\<close>) and every call of a user handler is recorded, in program
  order, in an explicit log; a read that C++ leaves undefined is a \<open>fault\<close> value.
\<close>

subsection \<open>Strings\<close>

text \<open>
  \<^verbatim>\<open>std::string::c_str()\<close> handed to \<^verbatim>\<open>h2o_strdup(pool, s, SIZE_MAX)\<close>, to \<^verbatim>\<open>strlen\<close> or
  to \<^verbatim>\<open>std::string(const char*)\<close> is read up to the first NUL byte.
\<close>

definition c_str :: "string \<Rightarrow> string" where
  "c_str s = takeWhile (\<lambda>c. c \<noteq> CHR 0x00) s"

subsection \<open>\<^verbatim>\<open>parse_query\<close> (lines 229-248)\<close>

text \<open>
  The pattern is \<^verbatim>\<open>([\w+%-]+)=([^&]*)\<close> in the ECMAScript grammar of \<^verbatim>\<open>std::regex\<close>.
  \<open>is_key_char\<close> is the bracket expression: \<^verbatim>\<open>\w\<close> (letters, digits and the
  underscore in the default locale), \<^verbatim>\<open>+\<close>, \<^verbatim>\<open>%\<close> and the trailing literal \<^verbatim>\<open>-\<close>.
\<close>

definition is_key_char :: "char \<Rightarrow> bool" where
  "is_key_char c \<longleftrightarrow>
     c \<in> set ''abcdefghijklmnopqrstuvwxyzABCDEFGHIJKLMNOPQRSTUVWXYZ0123456789_+%-''"

text \<open>
  A match that starts at the head of \<open>s\<close>. The first group is greedy; giving characters
  back cannot help, because the character after a shorter key is a key character and
  not \<^verbatim>\<open>=\<close>. So the key is the longest run of key characters, it must be non-empty and
  followed by \<^verbatim>\<open>=\<close>, and the second group takes everything up to the next \<^verbatim>\<open>&\<close>.
  The result is (group 1, group 2, the text after the match).
\<close>

definition match_at :: "string \<Rightarrow> (string \<times> string \<times> string) option" where
  "match_at s =
     (let key = takeWhile is_key_char s; after_key = dropWhile is_key_char s
      in case after_key of
           [] \<Rightarrow> None
         | c # after_eq \<Rightarrow>
             if key \<noteq> [] \<and> c = CHR ''=''
             then Some (key, takeWhile (\<lambda>x. x \<noteq> CHR ''&'') after_eq,
                        dropWhile (\<lambda>x. x \<noteq> CHR ''&'') after_eq)
             else None)"

text \<open>
  \<^verbatim>\<open>std::sregex_iterator\<close>: the leftmost match of the remaining text, then the search
  goes on after that match. A match is never empty, so the iterator always advances.
\<close>

function sregex_iterator :: "string \<Rightarrow> (string \<times> string) list" where
  "sregex_iterator [] = []"
| "sregex_iterator (c # cs) =
     (case match_at (c # cs) of
        None \<Rightarrow> sregex_iterator cs
      | Some (key, raw_value, rest) \<Rightarrow> (key, raw_value) # sregex_iterator rest)"
  by pat_completeness auto
termination
  apply (relation "measure length")
    apply simp
   apply simp
  apply (clarsimp simp: match_at_def Let_def split: list.splits if_splits)
  apply (rule le_less_trans [OF length_dropWhile_le])
  apply (drule arg_cong [where f = length])
  subgoal for c cs after_eq
    using length_dropWhile_le [of is_key_char cs] by simp
  done

text \<open>The body of the \<^verbatim>\<open>for\<close> loop: \<open>url_decode\<close> is \<^verbatim>\<open>StringUtils::url_decode\<close>.\<close>

fun query_loop ::
  "(string \<Rightarrow> string) \<Rightarrow> (string \<times> string) list \<Rightarrow> (string \<rightharpoonup> string) \<Rightarrow> (string \<rightharpoonup> string)"
where
  "query_loop url_decode [] query_map = query_map"
| "query_loop url_decode ((key, raw_value) # ms) query_map =
     query_loop url_decode ms
       (case query_map key of
          None \<Rightarrow> query_map(key \<mapsto> url_decode raw_value)
        | Some old \<Rightarrow> query_map(key \<mapsto> old @ ''&&'' @ url_decode raw_value))"

definition parse_query :: "(string \<Rightarrow> string) \<Rightarrow> string \<Rightarrow> (string \<rightharpoonup> string)" where
  "parse_query url_decode query = query_loop url_decode (sregex_iterator query) Map.empty"

text \<open>
  The loop seen entry by entry. \<open>entries\<close> cuts the query string at every \<^verbatim>\<open>&\<close>. A match
  never runs across an \<^verbatim>\<open>&\<close>, so the iterator finds at most one match in an entry:
  \<open>entry_key_value\<close> is that match, the search of the pattern run on the entry alone
  (from every start position in turn, as \<^verbatim>\<open>regex_search\<close> does).
\<close>

fun entries :: "string \<Rightarrow> string list" where
  "entries [] = [[]]"
| "entries (c # cs) =
     (if c = CHR ''&'' then [] # entries cs
      else (case entries cs of [] \<Rightarrow> [[c]] | e # es \<Rightarrow> (c # e) # es))"

fun entry_key_value :: "string \<Rightarrow> (string \<times> string) option" where
  "entry_key_value [] = None"
| "entry_key_value (c # cs) =
     (case match_at (c # cs) of
        None \<Rightarrow> entry_key_value cs
      | Some (key, raw_value, rest) \<Rightarrow> Some (key, raw_value))"

fun joined :: "string list \<Rightarrow> string option" where
  "joined [] = None"
| "joined (v # vs) = Some (foldl (\<lambda>acc w. acc @ ''&&'' @ w) v vs)"

text \<open>
  The specification's words. Section 4.4 gives the keys as \<^verbatim>\<open>[A-Za-z0-9_%+-]+\<close>:
  \<open>spec_key_char\<close> is that class, by character code. Section 7 has the entries that do
  not match the key=value shape ignored: \<open>key_value_shape\<close> reads an entry as a whole,
  a non-empty key of key characters, then \<^verbatim>\<open>=\<close>, then the value. \<open>spec_values_of\<close> are
  the decoded values that the entries of that shape give a key.
\<close>

definition spec_key_char :: "char \<Rightarrow> bool" where
  "spec_key_char c \<longleftrightarrow>
     (let n = (of_char c :: nat)
      in (65 \<le> n \<and> n \<le> 90) \<or> (97 \<le> n \<and> n \<le> 122) \<or> (48 \<le> n \<and> n \<le> 57))
     \<or> c = CHR ''_'' \<or> c = CHR ''%'' \<or> c = CHR ''+'' \<or> c = CHR ''-''"

definition key_value_shape :: "string \<Rightarrow> (string \<times> string) option" where
  "key_value_shape e =
     (let key = takeWhile (\<lambda>c. c \<noteq> CHR ''='') e
      in if key \<noteq> [] \<and> list_all spec_key_char key \<and> CHR ''='' \<in> set e
         then Some (key, tl (dropWhile (\<lambda>c. c \<noteq> CHR ''='') e))
         else None)"

definition spec_values_of :: "(string \<Rightarrow> string) \<Rightarrow> string \<Rightarrow> string \<Rightarrow> string list" where
  "spec_values_of url_decode query key =
     map (\<lambda>kv. url_decode (snd kv))
       (filter (\<lambda>kv. fst kv = key) (List.map_filter key_value_shape (entries query)))"

text \<open>
  What an entry gives when it need not have the shape as a whole: one pass over the
  entry that keeps the run of key characters read last and stops at the first \<^verbatim>\<open>=\<close>
  that follows a non-empty run. The run is the key and the rest of the entry the value.
  \<open>values_of\<close> are the decoded values that the entries give a key in this way.
\<close>

fun scan_key_value :: "string \<Rightarrow> string \<Rightarrow> (string \<times> string) option" where
  "scan_key_value run [] = None"
| "scan_key_value run (c # cs) =
     (if c = CHR ''='' \<and> run \<noteq> [] then Some (run, cs)
      else if spec_key_char c then scan_key_value (run @ [c]) cs
      else scan_key_value [] cs)"

definition first_key_value :: "string \<Rightarrow> (string \<times> string) option" where
  "first_key_value e = scan_key_value [] e"

definition values_of :: "(string \<Rightarrow> string) \<Rightarrow> string \<Rightarrow> string \<Rightarrow> string list" where
  "values_of url_decode query key =
     map (\<lambda>kv. url_decode (snd kv))
       (filter (\<lambda>kv. fst kv = key) (List.map_filter first_key_value (entries query)))"

subsection \<open>Routes, requests and responses\<close>

text \<open>
  \<^verbatim>\<open>route_path\<close> as the registration functions build it. A handler is a function
  pointer; \<open>'h\<close> is the type of such references, and what a call of one does to the
  response object is given by \<open>run_handler\<close> below.
\<close>

record 'h route_path =
  http_method :: string
  path_parts :: "string list"
  handler :: 'h
  async :: bool

text \<open>
  \<^verbatim>\<open>http_req\<close> is built as \<^verbatim>\<open>http_req{req, query_map, req_body}\<close>; the first member is
  the pointer to the transport's request and is left out. Of \<^verbatim>\<open>http_res\<close> the members
  that the file reads are kept.
\<close>

record http_req =
  params :: "string \<rightharpoonup> string"
  req_body :: string

record http_res =
  status_code :: "32 word"
  content_type_header :: string
  body :: string
  final :: bool

text \<open>
  What the file uses and does not define. \<^verbatim>\<open>StringUtils::split\<close> and
  \<^verbatim>\<open>StringUtils::url_decode\<close> are declared in \<^verbatim>\<open>string_utils.h\<close>, \<^verbatim>\<open>AUTH_HEADER\<close> in
  \<^verbatim>\<open>http_server.h\<close> and the constructor of \<^verbatim>\<open>http_res\<close> in \<^verbatim>\<open>http_data.h\<close>; none of
  them is part of the sources, so they are parameters of the model.
\<close>

record 'h externals =
  StringUtils_split :: "string \<Rightarrow> string \<Rightarrow> string list"
  StringUtils_url_decode :: "string \<Rightarrow> string"
  AUTH_HEADER :: string
  new_http_res :: http_res
  run_handler :: "'h \<Rightarrow> http_req \<Rightarrow> http_res \<Rightarrow> http_res"

text \<open>\<^verbatim>\<open>AUTH_HEADER\<close> is a \<^verbatim>\<open>const char*\<close>: every use reads it as a C string.\<close>

definition auth_header :: "'h externals \<Rightarrow> string" where
  "auth_header x = c_str (AUTH_HEADER x)"

text \<open>
  The members of \<^verbatim>\<open>HttpServer\<close> that the dispatcher reads. \<^verbatim>\<open>auth_handler\<close> is a
  function pointer that only \<^verbatim>\<open>set_auth_handler\<close> assigns: \<open>None\<close> until then.
\<close>

record 'h HttpServer =
  cors_enabled :: bool
  routes :: "'h route_path list"
  auth_handler :: "('h route_path \<Rightarrow> string \<Rightarrow> bool) option"

text \<open>
  The request as the transport delivers it (\<^verbatim>\<open>h2o_req_t\<close>): \<^verbatim>\<open>query_at\<close> is \<open>None\<close> for
  \<^verbatim>\<open>SIZE_MAX\<close>. The response side \<^verbatim>\<open>req->res\<close> is \<open>h2o_res_t\<close>.
\<close>

record h2o_req_t =
  req_method :: string
  path :: string
  query_at :: "nat option"
  headers :: "(string \<times> string) list"
  entity :: string

record h2o_res_t =
  status :: int
  reason :: string
  res_headers :: "(string \<times> string) list"

datatype h2o_send_state_t = H2O_SEND_STATE_IN_PROGRESS | H2O_SEND_STATE_FINAL

datatype 'h event =
    Handler_call 'h http_req
  | H2o_start_response h2o_res_t
  | H2o_send string h2o_send_state_t

datatype fault = Index_out_of_range | Null_function_pointer | Use_after_free

text \<open>\<^verbatim>\<open>h2o_find_header_by_str\<close> from cursor -1: the value of the first header of that name.\<close>

fun h2o_find_header_by_str :: "(string \<times> string) list \<Rightarrow> string \<Rightarrow> string option" where
  "h2o_find_header_by_str [] name = None"
| "h2o_find_header_by_str ((n, v) # hs) name =
     (if n = name then Some v else h2o_find_header_by_str hs name)"

definition get_status_reason :: "32 word \<Rightarrow> string" where
  "get_status_reason code =
     (if code = 200 then ''OK''
      else if code = 201 then ''Created''
      else if code = 400 then ''Bad Request''
      else if code = 401 then ''Unauthorized''
      else if code = 404 then ''Not Found''
      else if code = 409 then ''Conflict''
      else if code = 422 then ''Unprocessable Entity''
      else if code = 500 then ''Internal Server Error''
      else [])"

definition content_type_json :: "string \<times> string" where
  "content_type_json = (''content-type'', ''application/json; charset=utf-8'')"

subsection \<open>Route registration (lines 453-483)\<close>

definition HttpServer :: "bool \<Rightarrow> 'h HttpServer" where
  "HttpServer cors = \<lparr>cors_enabled = cors, routes = [], auth_handler = None\<rparr>"

definition set_auth_handler ::
  "('h route_path \<Rightarrow> string \<Rightarrow> bool) \<Rightarrow> 'h HttpServer \<Rightarrow> 'h HttpServer" where
  "set_auth_handler h srv = srv\<lparr>auth_handler := Some h\<rparr>"

definition get :: "'h externals \<Rightarrow> string \<Rightarrow> 'h \<Rightarrow> bool \<Rightarrow> 'h HttpServer \<Rightarrow> 'h HttpServer" where
  "get x p h a srv =
     srv\<lparr>routes := routes srv @
       [\<lparr>http_method = ''GET'', path_parts = StringUtils_split x p ''/'', handler = h, async = a\<rparr>]\<rparr>"

definition post :: "'h externals \<Rightarrow> string \<Rightarrow> 'h \<Rightarrow> bool \<Rightarrow> 'h HttpServer \<Rightarrow> 'h HttpServer" where
  "post x p h a srv =
     srv\<lparr>routes := routes srv @
       [\<lparr>http_method = ''POST'', path_parts = StringUtils_split x p ''/'', handler = h, async = a\<rparr>]\<rparr>"

definition put :: "'h externals \<Rightarrow> string \<Rightarrow> 'h \<Rightarrow> bool \<Rightarrow> 'h HttpServer \<Rightarrow> 'h HttpServer" where
  "put x p h a srv =
     srv\<lparr>routes := routes srv @
       [\<lparr>http_method = ''PUT'', path_parts = StringUtils_split x p ''/'', handler = h, async = a\<rparr>]\<rparr>"

definition del :: "'h externals \<Rightarrow> string \<Rightarrow> 'h \<Rightarrow> bool \<Rightarrow> 'h HttpServer \<Rightarrow> 'h HttpServer" where
  "del x p h a srv =
     srv\<lparr>routes := routes srv @
       [\<lparr>http_method = ''DELETE'', path_parts = StringUtils_split x p ''/'', handler = h, async = a\<rparr>]\<rparr>"

text \<open>
  A server is set up by a sequence of these calls on a freshly constructed object.
\<close>

datatype 'h config_call =
    Set_auth_handler "'h route_path \<Rightarrow> string \<Rightarrow> bool"
  | Get string 'h bool
  | Post string 'h bool
  | Put string 'h bool
  | Del string 'h bool

fun configure :: "'h externals \<Rightarrow> 'h HttpServer \<Rightarrow> 'h config_call list \<Rightarrow> 'h HttpServer" where
  "configure x srv [] = srv"
| "configure x srv (Set_auth_handler h # cs) = configure x (set_auth_handler h srv) cs"
| "configure x srv (Get p h a # cs) = configure x (get x p h a srv) cs"
| "configure x srv (Post p h a # cs) = configure x (post x p h a srv) cs"
| "configure x srv (Put p h a # cs) = configure x (put x p h a srv) cs"
| "configure x srv (Del p h a # cs) = configure x (del x p h a srv) cs"

subsection \<open>The responses the dispatcher writes itself\<close>

text \<open>
  Each of them sets \<^verbatim>\<open>req->res\<close>, calls \<^verbatim>\<open>h2o_start_response\<close> and sends one final
  chunk. \<open>hs\<close> are the response headers added so far.
\<close>

definition send_401_unauthorized :: "'h externals \<Rightarrow> (string \<times> string) list \<Rightarrow> 'h event list" where
  \<open>send_401_unauthorized x hs =
     (let res_body = ''{"message": "Forbidden - a valid `'' @ auth_header x @
                     ''` header must be sent."}''
      in [H2o_start_response
            \<lparr>status = 401, reason = get_status_reason 401, res_headers = hs @ [content_type_json]\<rparr>,
          H2o_send (c_str res_body) H2O_SEND_STATE_FINAL])\<close>

definition send_404 :: "(string \<times> string) list \<Rightarrow> 'h event list" where
  \<open>send_404 hs =
     [H2o_start_response
        \<lparr>status = 404, reason = get_status_reason 404, res_headers = hs @ [content_type_json]\<rparr>,
      H2o_send ''{ "message": "Not Found"}'' H2O_SEND_STATE_FINAL]\<close>

definition send_response :: "(string \<times> string) list \<Rightarrow> http_res \<Rightarrow> 'h event list" where
  "send_response hs response =
     [H2o_start_response
        \<lparr>status = sint (status_code response),
         reason = get_status_reason (status_code response),
         res_headers = hs @ [content_type_json]\<rparr>,
      H2o_send (c_str (body response)) H2O_SEND_STATE_FINAL]"

definition send_preflight :: "(string \<times> string) list \<Rightarrow> string \<Rightarrow> 'h event list" where
  "send_preflight hs acl_req_headers =
     [H2o_start_response
        \<lparr>status = 200, reason = get_status_reason 200,
         res_headers = hs @
           [(''access-control-allow-methods'', ''POST, GET, DELETE, PUT, PATCH, OPTIONS''),
            (''access-control-allow-headers'', acl_req_headers),
            (''access-control-max-age'', ''86400'')]\<rparr>,
      H2o_send [] H2O_SEND_STATE_FINAL]"

subsection \<open>\<^verbatim>\<open>catch_all_handler\<close> (lines 250-374)\<close>

text \<open>\<^verbatim>\<open>rpart[0] == ':'\<close>: on an empty \<^verbatim>\<open>std::string\<close> the read gives NUL.\<close>

definition is_param :: "string \<Rightarrow> bool" where
  "is_param rpart = (case rpart of [] \<Rightarrow> False | c # _ \<Rightarrow> c = CHR '':'')"

text \<open>
  The inner loop of lines 325-332, entered only when both vectors have the same size;
  the third equation is never reached from there.
\<close>

fun parts_match :: "string list \<Rightarrow> string list \<Rightarrow> bool" where
  "parts_match [] given = True"
| "parts_match (rpart # rparts) (given_part # given) =
     (if rpart \<noteq> given_part \<and> \<not> is_param rpart then False else parts_match rparts given)"
| "parts_match (rpart # rparts) [] = False"

definition route_matches :: "'h route_path \<Rightarrow> string \<Rightarrow> string list \<Rightarrow> bool" where
  "route_matches rpath method_name given \<longleftrightarrow>
     \<not> (length (path_parts rpath) \<noteq> length given \<or> http_method rpath \<noteq> method_name)
     \<and> parts_match (path_parts rpath) given"

text \<open>
  Lines 343-347: \<^verbatim>\<open>query_map.emplace(path_part.substr(1), path_parts[i])\<close>. \<^verbatim>\<open>emplace\<close>
  inserts only when the key is not in the map yet.
\<close>

definition emplace :: "(string \<rightharpoonup> string) \<Rightarrow> string \<Rightarrow> string \<Rightarrow> (string \<rightharpoonup> string)" where
  "emplace m k v = (case m k of None \<Rightarrow> m(k \<mapsto> v) | Some _ \<Rightarrow> m)"

fun extract_path_params ::
  "string list \<Rightarrow> string list \<Rightarrow> (string \<rightharpoonup> string) \<Rightarrow> (string \<rightharpoonup> string)" where
  "extract_path_params [] given query_map = query_map"
| "extract_path_params (path_part # rparts) (given_part # given) query_map =
     extract_path_params rparts given
       (if is_param path_part then emplace query_map (tl path_part) given_part else query_map)"
| "extract_path_params (path_part # rparts) [] query_map = query_map"

text \<open>The values computed before the route loop, as the loop reads them.\<close>

record locals =
  l_http_method :: string
  l_path_parts :: "string list"
  l_query_map :: "string \<rightharpoonup> string"
  l_req_body :: string
  l_auth_key_from_header :: string
  l_res_headers :: "(string \<times> string) list"

text \<open>
  Lines 336-361, the body of \<^verbatim>\<open>if(found)\<close>: the auth gate, then the path parameters,
  the handler and, for a route that is not \<^verbatim>\<open>async\<close>, the response.
\<close>

definition dispatch_route ::
  "'h externals \<Rightarrow> 'h HttpServer \<Rightarrow> locals \<Rightarrow> 'h route_path \<Rightarrow> fault + 'h event list" where
  "dispatch_route x srv l rpath =
     (case auth_handler srv of
        None \<Rightarrow> Inl Null_function_pointer
      | Some authenticate \<Rightarrow>
          if \<not> authenticate rpath (l_auth_key_from_header l)
          then Inr (send_401_unauthorized x (l_res_headers l))
          else
            (let query_map = extract_path_params (path_parts rpath) (l_path_parts l)
                               (l_query_map l);
                 request = \<lparr>params = query_map, req_body = l_req_body l\<rparr>;
                 response = run_handler x (handler rpath) request (new_http_res x)
             in Inr (Handler_call (handler rpath) request #
                     (if \<not> async rpath then send_response (l_res_headers l) response
                      else []))))"

text \<open>The loop over the routes (lines 318-363) and the 404 after it (lines 365-373).\<close>

fun route_loop ::
  "'h externals \<Rightarrow> 'h HttpServer \<Rightarrow> locals \<Rightarrow> 'h route_path list \<Rightarrow> fault + 'h event list" where
  "route_loop x srv l [] = Inr (send_404 (l_res_headers l))"
| "route_loop x srv l (rpath # rest) =
     (if length (path_parts rpath) \<noteq> length (l_path_parts l)
         \<or> http_method rpath \<noteq> l_http_method l
      then route_loop x srv l rest
      else if \<not> parts_match (path_parts rpath) (l_path_parts l)
      then route_loop x srv l rest
      else dispatch_route x srv l rpath)"

text \<open>
  Lines 253-280: \<open>compute_locals\<close> is \<open>Inl\<close> when \<^verbatim>\<open>path_with_query_parts[0]\<close> reads an
  empty vector.
\<close>

definition compute_locals :: "'h externals \<Rightarrow> 'h HttpServer \<Rightarrow> h2o_req_t \<Rightarrow> fault + locals" where
  "compute_locals x srv req =
     (case StringUtils_split x (path req) ''?'' of
        [] \<Rightarrow> Inl Index_out_of_range
      | path_without_query # _ \<Rightarrow>
          (let given_parts = StringUtils_split x path_without_query ''/'';
               query_str = (case query_at req of None \<Rightarrow> [] | Some at \<Rightarrow> drop at (path req));
               query_map = parse_query (StringUtils_url_decode x) query_str;
               auth_key_from_header =
                 (case h2o_find_header_by_str (headers req) (auth_header x) of
                    Some slot \<Rightarrow> slot
                  | None \<Rightarrow>
                      (case query_map (auth_header x) of Some v \<Rightarrow> v | None \<Rightarrow> []))
           in Inr \<lparr>l_http_method = req_method req,
                   l_path_parts = given_parts,
                   l_query_map = query_map,
                   l_req_body = entity req,
                   l_auth_key_from_header = auth_key_from_header,
                   l_res_headers =
                     (if cors_enabled srv then [(''access-control-allow-origin'', ''*'')]
                      else [])\<rparr>))"

text \<open>
  Lines 283-316: with CORS enabled, the value of the \<^verbatim>\<open>access-control-request-headers\<close>
  header of an \<^verbatim>\<open>OPTIONS\<close> request, when there is one.
\<close>

definition preflight :: "'h HttpServer \<Rightarrow> h2o_req_t \<Rightarrow> string option" where
  "preflight srv req =
     (if cors_enabled srv \<and> req_method req = ''OPTIONS''
      then h2o_find_header_by_str (headers req) ''access-control-request-headers''
      else None)"

definition catch_all_handler :: "'h externals \<Rightarrow> 'h HttpServer \<Rightarrow> h2o_req_t \<Rightarrow> fault + 'h event list" where
  "catch_all_handler x srv req =
     (case compute_locals x srv req of
        Inl f \<Rightarrow> Inl f
      | Inr l \<Rightarrow>
          (case preflight srv req of
             Some acl_req_headers \<Rightarrow> Inr (send_preflight (l_res_headers l) acl_req_headers)
           | None \<Rightarrow> route_loop x srv l (routes srv)))"

text \<open>
  The route a request is resolved to: the first one, in registration order, that the
  tests of the loop accept.
\<close>

definition matched_route :: "'h HttpServer \<Rightarrow> locals \<Rightarrow> 'h route_path option" where
  "matched_route srv l =
     find (\<lambda>r. route_matches r (l_http_method l) (l_path_parts l)) (routes srv)"

text \<open>What a run wrote to the transport, and which handlers it called.\<close>

fun sent_bodies :: "'h event list \<Rightarrow> string list" where
  "sent_bodies [] = []"
| "sent_bodies (H2o_send b s # es) = b # sent_bodies es"
| "sent_bodies (e # es) = sent_bodies es"

fun handler_calls :: "'h event list \<Rightarrow> 'h list" where
  "handler_calls [] = []"
| "handler_calls (Handler_call h q # es) = h # handler_calls es"
| "handler_calls (e # es) = handler_calls es"

fun handler_requests :: "'h event list \<Rightarrow> http_req list" where
  "handler_requests [] = []"
| "handler_requests (Handler_call h q # es) = q # handler_requests es"
| "handler_requests (e # es) = handler_requests es"

text \<open>
  The position, in registration order, of the first route that the tests of the loop
  accept (the number of routes when there is none).
\<close>

fun first_match :: "'h route_path list \<Rightarrow> string \<Rightarrow> string list \<Rightarrow> nat" where
  "first_match [] m given = 0"
| "first_match (r # rs) m given =
     (if route_matches r m given then 0 else Suc (first_match rs m given))"

text \<open>The methods that the registration functions give a route.\<close>

definition verbs :: "string set" where
  "verbs = {''GET'', ''POST'', ''PUT'', ''DELETE''}"

subsection \<open>An instance of the parameters, for concrete runs\<close>

text \<open>
  Modelled from the spec: \<^verbatim>\<open>StringUtils::split\<close> (\<^verbatim>\<open>string_utils.h\<close> and its
  implementation are not among the sources). Section 6 gives the path syntax as
  \<^verbatim>\<open>/\<close>-separated segments and section 4.4 has the dispatcher split the path from the
  query string; \<open>tokens\<close> cuts at the first character of the delimiter and keeps the
  non-empty pieces.
\<close>

fun tokens :: "char \<Rightarrow> string \<Rightarrow> string \<Rightarrow> string list" where
  "tokens d acc [] = (if acc = [] then [] else [acc])"
| "tokens d acc (c # cs) =
     (if c = d then (if acc = [] then tokens d [] cs else acc # tokens d [] cs)
      else tokens d (acc @ [c]) cs)"

definition sample_split :: "string \<Rightarrow> string \<Rightarrow> string list" where
  "sample_split s delim = (case delim of [] \<Rightarrow> [s] | d # _ \<Rightarrow> tokens d [] s)"

text \<open>
  Modelled from the spec: \<^verbatim>\<open>StringUtils::url_decode\<close>, \<^verbatim>\<open>AUTH_HEADER\<close> and the initial
  \<^verbatim>\<open>http_res\<close> (declared in headers that are not among the sources). The sample decoder
  is used on values without \<^verbatim>\<open>%\<close> only, where percent-decoding changes nothing; a
  sample handler numbered \<open>h\<close> answers 200 with \<open>h\<close> letters \<^verbatim>\<open>h\<close> as the body.
\<close>

definition sample_externals :: "nat externals" where
  "sample_externals =
     \<lparr>StringUtils_split = sample_split,
      StringUtils_url_decode = (\<lambda>s. s),
      AUTH_HEADER = ''x-typesense-api-key'',
      new_http_res = \<lparr>status_code = 0, content_type_header = ''application/json; charset=utf-8'',
                      body = [], final = True\<rparr>,
      run_handler = (\<lambda>h q r. r\<lparr>status_code := 200, body := replicate h CHR ''h''\<rparr>)\<rparr>"

subsection \<open>A concrete server and concrete requests\<close>

text \<open>
  Three \<^verbatim>\<open>GET\<close> routes that all accept \<^verbatim>\<open>/items/all\<close>, one \<^verbatim>\<open>POST\<close> route, CORS
  enabled, and an auth gate that accepts the key \<^verbatim>\<open>secret\<close>.
\<close>

definition example_calls :: "nat config_call list" where
  "example_calls =
     [Set_auth_handler (\<lambda>r k. k = ''secret''),
      Get ''/items/:id'' 1 False,
      Get ''/items/all'' 2 False,
      Get ''/:kind/all'' 3 False,
      Post ''/items'' 4 True]"

definition example_server :: "nat HttpServer" where
  "example_server = configure sample_externals (HttpServer True) example_calls"

definition request_item :: h2o_req_t where
  "request_item =
     \<lparr>req_method = ''GET'', path = ''/items/42?id=7&x=1'', query_at = Some 9,
      headers = [(''x-typesense-api-key'', ''secret'')], entity = []\<rparr>"

definition request_all :: h2o_req_t where
  "request_all =
     \<lparr>req_method = ''GET'', path = ''/items/all'', query_at = None,
      headers = [(''x-typesense-api-key'', ''secret'')], entity = []\<rparr>"

definition request_no_key :: h2o_req_t where
  "request_no_key =
     \<lparr>req_method = ''GET'', path = ''/items/42'', query_at = None, headers = [], entity = []\<rparr>"

definition request_unknown :: h2o_req_t where
  "request_unknown =
     \<lparr>req_method = ''GET'', path = ''/nope'', query_at = None, headers = [], entity = []\<rparr>"

definition request_preflight :: h2o_req_t where
  "request_preflight =
     \<lparr>req_method = ''OPTIONS'', path = ''/items/42'', query_at = None,
      headers = [(''access-control-request-headers'', ''X-Foo'')], entity = []\<rparr>"

definition request_options :: h2o_req_t where
  "request_options =
     \<lparr>req_method = ''OPTIONS'', path = ''/items/42'', query_at = None, headers = [], entity = []\<rparr>"

text \<open>The locals of the concrete requests, as \<open>compute_locals\<close> gives them.\<close>

definition locals_of :: "string \<Rightarrow> string list \<Rightarrow> (string \<rightharpoonup> string) \<Rightarrow> string \<Rightarrow> locals" where
  "locals_of m parts qm key =
     \<lparr>l_http_method = m, l_path_parts = parts, l_query_map = qm, l_req_body = [],
      l_auth_key_from_header = key,
      l_res_headers = [(''access-control-allow-origin'', ''*'')]\<rparr>"

subsection \<open>The streaming generator (lines 396-438)\<close>

text \<open>
  The resumption handler is a \<^verbatim>\<open>void (*)(http_req*, http_res*, void*)\<close>: it may change the
  request, the response and the data it is given. \<^verbatim>\<open>h2o_custom_generator_t\<close> holds it
  with the data; its \<^verbatim>\<open>req_res\<close> member points to the request and response objects, which
  are kept beside it in the state of the exchange.
\<close>

type_synonym 'd stream_handler = "http_req \<Rightarrow> http_res \<Rightarrow> 'd \<Rightarrow> http_req \<times> http_res \<times> 'd"

record 'd h2o_custom_generator_t =
  gen_handler :: "'d stream_handler"
  gen_data :: 'd

text \<open>
  One streaming exchange: the three heap objects (\<open>None\<close> once deleted), the response
  head given to \<^verbatim>\<open>h2o_start_response\<close>, whether \<^verbatim>\<open>h2o_dispose_request\<close> was called, the
  \<^verbatim>\<open>h2o_send\<close> calls in order, and the number of calls of the resumption handler.
\<close>

record 'd exchange =
  request_obj :: "http_req option"
  response_obj :: "http_res option"
  generator_obj :: "'d h2o_custom_generator_t option"
  started :: h2o_res_t
  disposed :: bool
  sends :: "(string \<times> h2o_send_state_t) list"
  resumptions :: nat

definition stream_response ::
  "'d stream_handler \<Rightarrow> http_req \<Rightarrow> http_res \<Rightarrow> 'd \<Rightarrow> (string \<times> string) list \<Rightarrow> 'd exchange" where
  "stream_response h request response d hs =
     \<lparr>request_obj = Some request,
      response_obj = Some response,
      generator_obj = Some \<lparr>gen_handler = h, gen_data = d\<rparr>,
      started = \<lparr>status = sint (status_code response),
                 reason = get_status_reason (status_code response),
                 res_headers = hs @ [(''content-type'', content_type_header response)]\<rparr>,
      disposed = False,
      sends = [([], H2O_SEND_STATE_IN_PROGRESS)],
      resumptions = 0\<rparr>"

definition response_proceed :: "'d exchange \<Rightarrow> fault + 'd exchange" where
  "response_proceed st =
     (case (generator_obj st, request_obj st, response_obj st) of
        (Some custom_generator, Some rq, Some rs) \<Rightarrow>
          (case gen_handler custom_generator rq rs (gen_data custom_generator) of
             (rq', rs', d') \<Rightarrow>
               (let state = (if final rs' then H2O_SEND_STATE_FINAL
                             else H2O_SEND_STATE_IN_PROGRESS);
                    st' = st\<lparr>request_obj := Some rq',
                             response_obj := Some rs',
                             generator_obj := Some (custom_generator\<lparr>gen_data := d'\<rparr>),
                             sends := sends st @ [(c_str (body rs'), state)],
                             resumptions := Suc (resumptions st)\<rparr>
                in if final rs'
                   then Inr (st'\<lparr>disposed := True, request_obj := None,
                                  response_obj := None, generator_obj := None\<rparr>)
                   else Inr st'))
      | _ \<Rightarrow> Inl Use_after_free)"

definition response_stop :: "'d exchange \<Rightarrow> fault + 'd exchange" where
  "response_stop st =
     (case (generator_obj st, request_obj st, response_obj st) of
        (Some custom_generator, Some rq, Some rs) \<Rightarrow>
          Inr (st\<lparr>disposed := True, request_obj := None,
                   response_obj := None, generator_obj := None\<rparr>)
      | _ \<Rightarrow> Inl Use_after_free)"

text \<open>The transport signals write-readiness \<open>n\<close> times.\<close>

fun proceed_turns :: "nat \<Rightarrow> 'd exchange \<Rightarrow> fault + 'd exchange" where
  "proceed_turns 0 st = Inr st"
| "proceed_turns (Suc n) st =
     (case response_proceed st of Inl f \<Rightarrow> Inl f | Inr st' \<Rightarrow> proceed_turns n st')"

text \<open>The request, response and data after \<open>k\<close> calls of the resumption handler.\<close>

fun after_turns ::
  "'d stream_handler \<Rightarrow> nat \<Rightarrow> http_req \<times> http_res \<times> 'd \<Rightarrow> http_req \<times> http_res \<times> 'd" where
  "after_turns h 0 s = s"
| "after_turns h (Suc k) (rq, rs, d) = after_turns h k (h rq rs d)"

definition response_after ::
  "'d stream_handler \<Rightarrow> http_req \<Rightarrow> http_res \<Rightarrow> 'd \<Rightarrow> nat \<Rightarrow> http_res" where
  "response_after h rq rs d k = fst (snd (after_turns h k (rq, rs, d)))"

definition chunk_after ::
  "'d stream_handler \<Rightarrow> http_req \<Rightarrow> http_res \<Rightarrow> 'd \<Rightarrow> nat \<Rightarrow> string" where
  "chunk_after h rq rs d k = c_str (body (response_after h rq rs d k))"

text \<open>
  Two resumption handlers for concrete runs. The data is the number of turns left: the
  first appends \<^verbatim>\<open>x\<close> to the body and sets \<^verbatim>\<open>final\<close> on the turn that brings the count
  to zero; the second never sets \<^verbatim>\<open>final\<close>.
\<close>

definition counting_handler :: "nat stream_handler" where
  "counting_handler rq rs d = (rq, rs\<lparr>body := body rs @ ''x'', final := (d \<le> 1)\<rparr>, d - 1)"

definition endless_handler :: "nat stream_handler" where
  "endless_handler rq rs d = (rq, rs\<lparr>body := body rs @ ''x'', final := False\<rparr>, Suc d)"

definition example_request :: http_req where
  "example_request = \<lparr>params = Map.empty, req_body = []\<rparr>"

definition example_response :: http_res where
  "example_response =
     \<lparr>status_code = 200, content_type_header = ''text/plain'', body = [], final = False\<rparr>"

subsection \<open>The message relay (lines 183-196, 376-379, 485-496)\<close>

text \<open>
  \<^verbatim>\<open>h2o_custom_res_message_t\<close>: the type tag and the payload pointer (the third member
  points back to the server). A callback is a \<^verbatim>\<open>void (*)(void*)\<close>; \<open>'cb\<close> is the type of
  such references and \<open>'p\<close> that of payloads.
\<close>

record 'p h2o_custom_res_message_t =
  msg_type :: string
  msg_data :: 'p

datatype ('cb, 'p) relay_event =
    Callback 'cb 'p
  | Unlink_delete "'p h2o_custom_res_message_t"
  | Release_receiver

text \<open>
  The members of \<^verbatim>\<open>HttpServer\<close> that the relay uses: the callbacks by type, the list
  \<^verbatim>\<open>message_receiver->_messages\<close> of messages sent and not yet drained, and the log of
  what the relay has done so far. A callback is taken not to touch the list that is
  being drained.
\<close>

record ('cb, 'p) relay =
  message_handlers :: "string \<rightharpoonup> 'cb"
  inbox :: "'p h2o_custom_res_message_t list"
  relay_log :: "('cb, 'p) relay_event list"

text \<open>\<^verbatim>\<open>on\<close> (line 485): \<^verbatim>\<open>message_handlers.emplace\<close> keeps an earlier callback.\<close>

definition on :: "string \<Rightarrow> 'cb \<Rightarrow> ('cb, 'p) relay \<Rightarrow> ('cb, 'p) relay" where
  "on message h st =
     (case message_handlers st message of
        None \<Rightarrow> st\<lparr>message_handlers := (message_handlers st)(message \<mapsto> h)\<rparr>
      | Some _ \<Rightarrow> st)"

text \<open>
  \<^verbatim>\<open>send_message\<close>: the type is copied from \<^verbatim>\<open>type.c_str()\<close>, and
  \<^verbatim>\<open>h2o_multithread_send_message\<close> links the message at the end of the receiver's list.
\<close>

definition send_message :: "string \<Rightarrow> 'p \<Rightarrow> ('cb, 'p) relay \<Rightarrow> ('cb, 'p) relay" where
  "send_message t d st = st\<lparr>inbox := inbox st @ [\<lparr>msg_type = c_str t, msg_data = d\<rparr>]\<rparr>"

text \<open>
  The loop of \<^verbatim>\<open>on_message\<close>: \<open>handle_message\<close> is what one iteration logs for the message
  at the head of the list.
\<close>

definition handle_message ::
  "(string \<rightharpoonup> 'cb) \<Rightarrow> 'p h2o_custom_res_message_t \<Rightarrow> ('cb, 'p) relay_event list" where
  "handle_message hs custom_message =
     (case hs (msg_type custom_message) of
        Some h \<Rightarrow> [Callback h (msg_data custom_message)]
      | None \<Rightarrow> [])
     @ [Unlink_delete custom_message]"

fun on_message_loop ::
  "(string \<rightharpoonup> 'cb) \<Rightarrow> 'p h2o_custom_res_message_t list \<Rightarrow> ('cb, 'p) relay_event list
   \<Rightarrow> 'p h2o_custom_res_message_t list \<times> ('cb, 'p) relay_event list" where
  "on_message_loop hs [] log = ([], log)"
| "on_message_loop hs (m # messages) log =
     on_message_loop hs messages (log @ handle_message hs m)"

definition on_message :: "('cb, 'p) relay \<Rightarrow> ('cb, 'p) relay" where
  "on_message st =
     (case on_message_loop (message_handlers st) (inbox st) (relay_log st) of
        (messages, log) \<Rightarrow> st\<lparr>inbox := messages, relay_log := log\<rparr>)"

text \<open>
  \<^verbatim>\<open>~HttpServer\<close>, lines 490-496: the drain, then the receiver and the queue are released.
\<close>

definition destroy :: "('cb, 'p) relay \<Rightarrow> ('cb, 'p) relay" where
  "destroy st = (let st' = on_message st in st'\<lparr>relay_log := relay_log st' @ [Release_receiver]\<rparr>)"

text \<open>The messages a log has freed, and the callbacks it has run, in order.\<close>

fun freed :: "('cb, 'p) relay_event list \<Rightarrow> 'p h2o_custom_res_message_t list" where
  "freed [] = []"
| "freed (Unlink_delete m # es) = m # freed es"
| "freed (e # es) = freed es"

fun callbacks_run :: "('cb, 'p) relay_event list \<Rightarrow> ('cb \<times> 'p) list" where
  "callbacks_run [] = []"
| "callbacks_run (Callback h d # es) = (h, d) # callbacks_run es"
| "callbacks_run (e # es) = callbacks_run es"

text \<open>A relay with a callback for \<^verbatim>\<open>done\<close> and one such message pending.\<close>

definition example_relay :: "(nat, nat) relay" where
  "example_relay =
     send_message ''done'' 5
       (on ''done'' 1 \<lparr>message_handlers = Map.empty, inbox = [], relay_log = []\<rparr>)"

section \<open>Properties of the dispatcher\<close>

subsection \<open>Query strings\<close>

lemma query_loop_lookup:
  "query_loop d ms m k =
     (case m k of
        None \<Rightarrow> joined (map (\<lambda>kv. d (snd kv)) (filter (\<lambda>kv. fst kv = k) ms))
      | Some old \<Rightarrow> joined (old # map (\<lambda>kv. d (snd kv)) (filter (\<lambda>kv. fst kv = k) ms)))"
proof (induction ms arbitrary: m)
  case Nil
  then show ?case by (simp split: option.splits)
next
  case (Cons kv ms)
  obtain key raw where kv: "kv = (key, raw)" by (cases kv)
  show ?case
  proof (cases "m key")
    case None
    then show ?thesis unfolding kv by (cases "m k") (auto simp: Cons.IH)
  next
    case (Some old)
    then show ?thesis unfolding kv by (cases "m k") (auto simp: Cons.IH)
  qed
qed

lemma amp_not_key: "\<not> is_key_char CHR ''&''"
  by (simp add: is_key_char_def)

lemma match_at_no_amp:
  assumes "CHR ''&'' \<notin> set e" and "match_at e = Some (k, v, r)"
  shows "r = []"
proof -
  from assms(2) obtain after_eq where d: "dropWhile is_key_char e = CHR ''='' # after_eq"
    and r: "r = dropWhile (\<lambda>x. x \<noteq> CHR ''&'') after_eq"
    unfolding match_at_def Let_def by (auto split: list.splits if_splits)
  have "set after_eq \<subseteq> set e"
    using set_dropWhileD [of _ is_key_char e] unfolding d by auto
  with assms(1) have "\<forall>x\<in>set after_eq. x \<noteq> CHR ''&''" by auto
  then show ?thesis unfolding r by simp
qed

lemma match_at_entry:
  assumes "CHR ''&'' \<notin> set e"
  shows "match_at (e @ CHR ''&'' # rest) =
           (case match_at e of None \<Rightarrow> None
            | Some (k, v, r) \<Rightarrow> Some (k, v, CHR ''&'' # rest))"
proof (cases "\<forall>x\<in>set e. is_key_char x")
  case True
  then have d: "dropWhile is_key_char e = []" by simp
  from True show ?thesis unfolding match_at_def Let_def d by (simp add: amp_not_key)
next
  case False
  then obtain c after where d: "dropWhile is_key_char e = c # after"
    by (cases "dropWhile is_key_char e") auto
  from False have t: "takeWhile is_key_char (e @ CHR ''&'' # rest) = takeWhile is_key_char e"
    and d2: "dropWhile is_key_char (e @ CHR ''&'' # rest) = c # after @ CHR ''&'' # rest"
    using d by (auto simp: takeWhile_append dropWhile_append)
  have "set after \<subseteq> set e"
    using set_dropWhileD [of _ is_key_char e] unfolding d by auto
  with assms have na: "\<forall>x\<in>set after. x \<noteq> CHR ''&''" by auto
  then have a1: "takeWhile (\<lambda>x. x \<noteq> CHR ''&'') (after @ CHR ''&'' # rest) = after"
    and a2: "dropWhile (\<lambda>x. x \<noteq> CHR ''&'') (after @ CHR ''&'' # rest) = CHR ''&'' # rest"
    by (simp_all add: takeWhile_append dropWhile_append)
  from na have a3: "after = takeWhile (\<lambda>x. x \<noteq> CHR ''&'') after"
    by (simp add: takeWhile_eq_all_conv [THEN iffD2])
  show ?thesis
    apply (simp add: match_at_def Let_def t d d2 a1 a2)
    using a3 by blast
qed

lemma match_at_amp: "match_at (CHR ''&'' # rest) = None"
  by (simp add: match_at_def Let_def amp_not_key)

lemma sregex_entry_last:
  "CHR ''&'' \<notin> set e \<Longrightarrow>
   sregex_iterator e = (case entry_key_value e of None \<Rightarrow> [] | Some kv \<Rightarrow> [kv])"
proof (induction e)
  case Nil
  then show ?case by simp
next
  case (Cons c e)
  show ?case
  proof (cases "match_at (c # e)")
    case None
    then show ?thesis using Cons by simp
  next
    case (Some m)
    obtain k v r where m: "m = (k, v, r)" by (cases m)
    from match_at_no_amp [OF Cons.prems Some [unfolded m]] have "r = []" .
    then show ?thesis using Some m by simp
  qed
qed

lemma sregex_entry:
  "CHR ''&'' \<notin> set e \<Longrightarrow>
   sregex_iterator (e @ CHR ''&'' # rest) =
     (case entry_key_value e of None \<Rightarrow> [] | Some kv \<Rightarrow> [kv]) @ sregex_iterator rest"
proof (induction e)
  case Nil
  then show ?case by (simp add: match_at_amp)
next
  case (Cons c e)
  have m: "match_at (c # e @ CHR ''&'' # rest) =
           (case match_at (c # e) of None \<Rightarrow> None
            | Some (k, v, r) \<Rightarrow> Some (k, v, CHR ''&'' # rest))"
    using match_at_entry [OF Cons.prems, of rest] by simp
  show ?case
  proof (cases "match_at (c # e)")
    case None
    then show ?thesis using Cons m by simp
  next
    case (Some found)
    obtain k v r where found: "found = (k, v, r)" by (cases found)
    show ?thesis using Some found m by (simp add: match_at_amp)
  qed
qed

lemma entries_entry:
  "CHR ''&'' \<notin> set e \<Longrightarrow> entries (e @ CHR ''&'' # rest) = e # entries rest"
  by (induction e) auto

lemma entries_last: "CHR ''&'' \<notin> set e \<Longrightarrow> entries e = [e]"
  by (induction e) auto

lemma sregex_iterator_entries:
  "sregex_iterator q = List.map_filter entry_key_value (entries q)"
proof (induction "length q" arbitrary: q rule: less_induct)
  case less
  define e where "e = takeWhile (\<lambda>x. x \<noteq> CHR ''&'') q"
  define r where "r = dropWhile (\<lambda>x. x \<noteq> CHR ''&'') q"
  have q: "q = e @ r" by (simp add: e_def r_def)
  have e: "CHR ''&'' \<notin> set e"
    using set_takeWhileD [of "CHR ''&''" "\<lambda>x. x \<noteq> CHR ''&''" q] unfolding e_def by auto
  show ?case
  proof (cases r)
    case Nil
    then show ?thesis using q e by (simp add: sregex_entry_last entries_last split: option.splits)
  next
    case (Cons c rest)
    have "c = CHR ''&''"
      using hd_dropWhile [of "\<lambda>x. x \<noteq> CHR ''&''" q] Cons unfolding r_def by auto
    then have q': "q = e @ CHR ''&'' # rest" using q Cons by simp
    then have "length rest < length q" by simp
    from less [OF this] show ?thesis
      unfolding q' by (simp add: sregex_entry [OF e] entries_entry [OF e] split: option.splits)
  qed
qed

lemma key_char_ranges: "is_key_char c = spec_key_char c"
proof (cases c)
  case (Char b0 b1 b2 b3 b4 b5 b6 b7)
  show ?thesis
    unfolding Char
    by (cases b0; cases b1; cases b2; cases b3; cases b4; cases b5; cases b6; cases b7)
       (simp_all add: is_key_char_def spec_key_char_def Let_def)
qed

lemma eq_not_key: "\<not> is_key_char CHR ''=''" "\<not> spec_key_char CHR ''=''"
  by (simp_all add: key_char_ranges [symmetric] is_key_char_def)

lemma entry_key_value_all_key:
  "\<forall>c\<in>set s. is_key_char c \<Longrightarrow> entry_key_value s = None"
proof (induction s)
  case Nil
  then show ?case by simp
next
  case (Cons c s)
  then have "dropWhile is_key_char (c # s) = []" by simp
  then have "match_at (c # s) = None" unfolding match_at_def Let_def by (simp only: list.case)
  with Cons show ?case by simp
qed

lemma entry_key_value_skip:
  assumes "\<forall>c\<in>set run. is_key_char c" and "\<not> is_key_char x" and "x \<noteq> CHR ''=''"
  shows "entry_key_value (run @ x # cs) = entry_key_value cs"
  using assms(1)
proof (induction run)
  case Nil
  have "match_at (x # cs) = None" using assms(2) by (simp add: match_at_def Let_def)
  then show ?case by simp
next
  case (Cons r run)
  then have "dropWhile is_key_char ((r # run) @ x # cs) = x # cs"
    using assms(2) by (simp add: dropWhile_append)
  then have "match_at ((r # run) @ x # cs) = None"
    unfolding match_at_def Let_def using assms(3) by simp
  with Cons show ?case by simp
qed

lemma match_at_eq_sign: "match_at (CHR ''='' # cs) = None"
  by (simp add: match_at_def Let_def eq_not_key)

lemma entry_key_value_hit:
  assumes "\<forall>c\<in>set run. is_key_char c" and "run \<noteq> []" and "CHR ''&'' \<notin> set cs"
  shows "entry_key_value (run @ CHR ''='' # cs) = Some (run, cs)"
proof -
  obtain r run' where run: "run = r # run'" using assms(2) by (cases run) auto
  have t: "takeWhile is_key_char (run @ CHR ''='' # cs) = run"
    and d: "dropWhile is_key_char (run @ CHR ''='' # cs) = CHR ''='' # cs"
    using assms(1) by (simp_all add: takeWhile_append dropWhile_append eq_not_key)
  have v: "takeWhile (\<lambda>x. x \<noteq> CHR ''&'') cs = cs"
    using assms(3) by auto
  have "match_at (run @ CHR ''='' # cs) = Some (run, cs, dropWhile (\<lambda>x. x \<noteq> CHR ''&'') cs)"
    unfolding match_at_def Let_def t d v using assms(2,3) by auto
  then show ?thesis unfolding run by simp
qed

lemma entry_key_value_scan:
  "\<forall>c\<in>set run. is_key_char c \<Longrightarrow> CHR ''&'' \<notin> set cs \<Longrightarrow>
   entry_key_value (run @ cs) = scan_key_value run cs"
proof (induction cs arbitrary: run)
  case Nil
  then show ?case by (simp add: entry_key_value_all_key)
next
  case (Cons x cs)
  from Cons.prems(2) have na: "CHR ''&'' \<notin> set cs" by simp
  consider (hit) "x = CHR ''=''" "run \<noteq> []" | (eq) "x = CHR ''=''" "run = []"
    | (key) "x \<noteq> CHR ''=''" "is_key_char x" | (other) "x \<noteq> CHR ''=''" "\<not> is_key_char x"
    by blast
  then show ?case
  proof cases
    case hit
    then show ?thesis using entry_key_value_hit [OF Cons.prems(1) hit(2) na] by simp
  next
    case eq
    have "entry_key_value cs = scan_key_value [] cs" using Cons.IH [of "[]"] na by simp
    with eq show ?thesis by (simp add: match_at_eq_sign eq_not_key)
  next
    case key
    with Cons.prems(1) have "\<forall>c\<in>set (run @ [x]). is_key_char c" by simp
    from Cons.IH [OF this na] key show ?thesis by (simp add: key_char_ranges)
  next
    case other
    have "entry_key_value cs = scan_key_value [] cs" using Cons.IH [of "[]"] na by simp
    with other entry_key_value_skip [OF Cons.prems(1) other(2,1), of cs]
    show ?thesis by (simp add: key_char_ranges)
  qed
qed

lemma entries_no_amp: "e \<in> set (entries q) \<Longrightarrow> CHR ''&'' \<notin> set e"
  by (induction q arbitrary: e) (auto split: if_splits list.splits)

lemma map_filter_entries:
  "List.map_filter entry_key_value (entries q) = List.map_filter first_key_value (entries q)"
proof -
  have "\<forall>e\<in>set (entries q). entry_key_value e = first_key_value e"
    using entry_key_value_scan [of "[]"] entries_no_amp
    by (auto simp: first_key_value_def)
  then show ?thesis by (simp add: map_filter_def cong: map_cong filter_cong)
qed

lemma scan_None_iff:
  "scan_key_value run cs = None \<longleftrightarrow>
     \<not> ((run \<noteq> [] \<and> (\<exists>v. cs = CHR ''='' # v))
        \<or> (\<exists>p c v. cs = p @ c # CHR ''='' # v \<and> spec_key_char c))"
proof (induction cs arbitrary: run)
  case Nil
  then show ?case by simp
next
  case (Cons x cs)
  have split: "(\<exists>p c v. x # cs = p @ c # CHR ''='' # v \<and> spec_key_char c) \<longleftrightarrow>
      (spec_key_char x \<and> (\<exists>v. cs = CHR ''='' # v))
      \<or> (\<exists>p c v. cs = p @ c # CHR ''='' # v \<and> spec_key_char c)"
    by (auto simp: Cons_eq_append_conv)
  show ?case
    unfolding split using Cons.IH [of "run @ [x]"] Cons.IH [of "[]"]
    by (auto simp: eq_not_key)
qed

lemma shape_is_found:
  assumes "key_value_shape e = Some kv"
  shows "first_key_value e = Some kv"
proof -
  define key where "key = takeWhile (\<lambda>c. c \<noteq> CHR ''='') e"
  from assms have k: "key \<noteq> []" "list_all spec_key_char key" "CHR ''='' \<in> set e"
    and kv: "kv = (key, tl (dropWhile (\<lambda>c. c \<noteq> CHR ''='') e))"
    unfolding key_value_shape_def Let_def key_def by (auto split: if_splits)
  from k(3) obtain v where d: "dropWhile (\<lambda>c. c \<noteq> CHR ''='') e = CHR ''='' # v"
    using hd_dropWhile [of "\<lambda>c. c \<noteq> CHR ''=''" e]
    by (cases "dropWhile (\<lambda>c. c \<noteq> CHR ''='') e") auto
  have e: "e = key @ CHR ''='' # v"
    using takeWhile_dropWhile_id [of "\<lambda>c. c \<noteq> CHR ''=''" e] unfolding key_def d by simp
  have scan: "list_all spec_key_char ks \<Longrightarrow> run @ ks \<noteq> [] \<Longrightarrow>
      scan_key_value run (ks @ CHR ''='' # v) = Some (run @ ks, v)" for ks run
    by (induction ks arbitrary: run) (auto simp: eq_not_key)
  from scan [OF k(2), of "[]"] k(1)
  have "scan_key_value [] (key @ CHR ''='' # v) = Some (key, v)" by simp
  then have "scan_key_value [] e = Some (key, v)" by (simp only: e [symmetric])
  then show ?thesis unfolding first_key_value_def kv d by simp
qed

text \<open>
  C5 (amended). For every query string, \<open>parse_query\<close> returns a map (it is total: no
  query string makes it fail) that reads the string entry by entry, the entries being
  separated by \<^verbatim>\<open>&\<close>. An entry gives a binding exactly when somewhere in it a key
  character (\<^verbatim>\<open>[A-Za-z0-9_%+-]\<close>) stands directly before an \<^verbatim>\<open>=\<close>: the key is the run of
  key characters before the first such \<^verbatim>\<open>=\<close> and the value the rest of the entry,
  percent-decoded. So an entry that is key=value as a whole is read as that key and
  value, an entry such as \<^verbatim>\<open>d.e=2\<close> binds \<^verbatim>\<open>e\<close>, and an entry with no key character
  before an \<^verbatim>\<open>=\<close> is ignored. The values that the entries give one key are joined, in
  their order of appearance, with the two characters \<^verbatim>\<open>&&\<close>; in particular \<^verbatim>\<open>a=1&a=2\<close>
  gives the single entry \<^verbatim>\<open>a\<close> with the decoded \<^verbatim>\<open>1\<close>, then \<^verbatim>\<open>&&\<close>, then the decoded \<^verbatim>\<open>2\<close>.
\<close>

theorem parse_query_entry_wise:
  "parse_query url_decode query key = joined (values_of url_decode query key)
   \<and> (first_key_value e = None \<longleftrightarrow>
        \<not> (\<exists>p c v. e = p @ c # CHR ''='' # v \<and> spec_key_char c))
   \<and> (key_value_shape e = Some kv \<longrightarrow> first_key_value e = Some kv)
   \<and> parse_query url_decode ''a=1&a=2'' = [''a'' \<mapsto> url_decode ''1'' @ ''&&'' @ url_decode ''2'']"
proof (intro conjI)
  show "parse_query url_decode query key = joined (values_of url_decode query key)"
    by (simp add: parse_query_def values_of_def query_loop_lookup sregex_iterator_entries
        map_filter_entries)
  show "first_key_value e = None \<longleftrightarrow>
        \<not> (\<exists>p c v. e = p @ c # CHR ''='' # v \<and> spec_key_char c)"
    unfolding first_key_value_def scan_None_iff by simp
  show "key_value_shape e = Some kv \<longrightarrow> first_key_value e = Some kv"
    using shape_is_found by blast
  show "parse_query url_decode ''a=1&a=2'' = [''a'' \<mapsto> url_decode ''1'' @ ''&&'' @ url_decode ''2'']"
    by (simp add: parse_query_def match_at_def is_key_char_def)
qed

lemma shape_examples:
  "key_value_shape ''a=1'' = Some (''a'', ''1'')"
  "key_value_shape ''d.e=2'' = None"
  by (simp_all add: key_value_shape_def spec_key_char_def)

text \<open>The entry \<^verbatim>\<open>a=1\<close> has the shape as a whole and is read as such.\<close>

theorem parse_query_entry_witness:
  "key_value_shape ''a=1'' = Some (''a'', ''1'')
   \<and> first_key_value ''a=1'' = Some (''a'', ''1'')
   \<and> parse_query (\<lambda>s. s) ''a=1'' ''a'' = Some ''1''"
proof -
  note t = parse_query_entry_wise [of "\<lambda>s. s" "''a=1''" "''a''" "''a=1''" "(''a'', ''1'')"]
  from t shape_examples(1) have f: "first_key_value ''a=1'' = Some (''a'', ''1'')" by blast
  have "entries ''a=1'' = [''a=1'']" by simp
  with t f have "parse_query (\<lambda>s. s) ''a=1'' ''a'' = Some ''1''"
    by (simp add: values_of_def)
  with f shape_examples(1) show ?thesis by simp
qed

text \<open>
  C5 as the specification words it fails at \<^verbatim>\<open>a=1&d.e=2\<close>: the entry \<^verbatim>\<open>d.e=2\<close> does not
  have the key=value shape, and it is not ignored: the key \<^verbatim>\<open>e\<close> is bound to \<^verbatim>\<open>2\<close>.
\<close>

theorem dotted_entry_is_not_ignored:
  "entries ''a=1&d.e=2'' = [''a=1'', ''d.e=2'']
   \<and> key_value_shape ''d.e=2'' = None
   \<and> spec_values_of (\<lambda>s. s) ''a=1&d.e=2'' ''e'' = []
   \<and> parse_query (\<lambda>s. s) ''a=1&d.e=2'' ''e'' = Some ''2''
   \<and> parse_query (\<lambda>s. s) ''a=1&d.e=2'' ''e''
       \<noteq> joined (spec_values_of (\<lambda>s. s) ''a=1&d.e=2'' ''e'')"
proof -
  have e: "entries ''a=1&d.e=2'' = [''a=1'', ''d.e=2'']" by simp
  have s: "spec_values_of (\<lambda>s. s) ''a=1&d.e=2'' ''e'' = []"
    unfolding spec_values_of_def e by (simp add: shape_examples)
  have p: "parse_query (\<lambda>s. s) ''a=1&d.e=2'' ''e'' = Some ''2''"
    by (simp add: parse_query_def match_at_def is_key_char_def)
  show ?thesis unfolding s p using e shape_examples(2) by simp
qed

subsection \<open>The route loop\<close>

lemma route_loop_find:
  "route_loop x srv l rs =
     (case find (\<lambda>r. route_matches r (l_http_method l) (l_path_parts l)) rs of
        None \<Rightarrow> Inr (send_404 (l_res_headers l))
      | Some r \<Rightarrow> dispatch_route x srv l r)"
  by (induction rs) (simp_all add: route_matches_def)

lemma compute_locals_fields:
  assumes "compute_locals x srv req = Inr l"
  shows "l_http_method l = req_method req"
    and "l_req_body l = entity req"
    and "l_res_headers l = (if cors_enabled srv then [(''access-control-allow-origin'', ''*'')] else [])"
    and "l_query_map l = parse_query (StringUtils_url_decode x)
           (case query_at req of None \<Rightarrow> [] | Some at \<Rightarrow> drop at (path req))"
  using assms unfolding compute_locals_def Let_def
  by (auto split: list.splits)

lemma configure_routes_verbs:
  "\<forall>r\<in>set (routes srv). http_method r \<in> verbs \<Longrightarrow>
   \<forall>r\<in>set (routes (configure x srv cs)). http_method r \<in> verbs"
proof (induction cs arbitrary: srv)
  case Nil
  then show ?case by simp
next
  case (Cons c cs)
  show ?case
  proof (cases c)
    case (Set_auth_handler h)
    with Cons.prems have "\<forall>r\<in>set (routes (set_auth_handler h srv)). http_method r \<in> verbs"
      by (simp add: set_auth_handler_def)
    from Cons.IH [OF this] Set_auth_handler show ?thesis by simp
  next
    case (Get p h a)
    with Cons.prems have "\<forall>r\<in>set (routes (get x p h a srv)). http_method r \<in> verbs"
      by (simp add: get_def verbs_def)
    from Cons.IH [OF this] Get show ?thesis by simp
  next
    case (Post p h a)
    with Cons.prems have "\<forall>r\<in>set (routes (post x p h a srv)). http_method r \<in> verbs"
      by (simp add: post_def verbs_def)
    from Cons.IH [OF this] Post show ?thesis by simp
  next
    case (Put p h a)
    with Cons.prems have "\<forall>r\<in>set (routes (put x p h a srv)). http_method r \<in> verbs"
      by (simp add: put_def verbs_def)
    from Cons.IH [OF this] Put show ?thesis by simp
  next
    case (Del p h a)
    with Cons.prems have "\<forall>r\<in>set (routes (del x p h a srv)). http_method r \<in> verbs"
      by (simp add: del_def verbs_def)
    from Cons.IH [OF this] Del show ?thesis by simp
  qed
qed

lemma configured_verbs:
  "srv = configure x (HttpServer cors) calls \<Longrightarrow> r \<in> set (routes srv) \<Longrightarrow> http_method r \<in> verbs"
  using configure_routes_verbs [of "HttpServer cors" x calls] by (simp add: HttpServer_def)

lemma preflight_None_if_verb:
  "req_method req \<in> verbs \<Longrightarrow> preflight srv req = None"
  by (auto simp: preflight_def verbs_def)

lemma matched_route_D:
  assumes "matched_route srv l = Some r"
  shows "r \<in> set (routes srv)" and "route_matches r (l_http_method l) (l_path_parts l)"
  using assms unfolding matched_route_def by (auto simp: find_Some_iff)

lemma catch_all_matched:
  assumes cfg: "srv = configure x (HttpServer cors) calls"
    and loc: "compute_locals x srv req = Inr l"
    and m: "matched_route srv l = Some r"
  shows "catch_all_handler x srv req = dispatch_route x srv l r"
proof -
  from matched_route_D [OF m] have "r \<in> set (routes srv)" "http_method r = l_http_method l"
    by (simp_all add: route_matches_def)
  with configured_verbs [OF cfg, of r] compute_locals_fields(1) [OF loc]
  have "req_method req \<in> verbs" by simp
  then have "preflight srv req = None" by (rule preflight_None_if_verb)
  then show ?thesis
    using loc m by (simp add: catch_all_handler_def route_loop_find matched_route_def)
qed

lemma c_str_401:
  "c_str (''{\"message\": \"Forbidden - a valid `'' @ auth_header x @ ''` header must be sent.\"}'')
   = ''{\"message\": \"Forbidden - a valid `'' @ auth_header x @ ''` header must be sent.\"}''"
proof -
  have "\<forall>c\<in>set (auth_header x). c \<noteq> CHR 0x00"
    unfolding auth_header_def c_str_def by (auto dest: set_takeWhileD)
  then show ?thesis unfolding c_str_def by (simp add: takeWhile_append)
qed

lemma reason_simps:
  "get_status_reason 200 = ''OK''" "get_status_reason 401 = ''Unauthorized''"
  "get_status_reason 404 = ''Not Found''"
  by (simp_all add: get_status_reason_def)

subsection \<open>The auth gate\<close>

lemmas ex_defs = example_server_def example_calls_def sample_externals_def sample_split_def
  HttpServer_def get_def post_def put_def del_def set_auth_handler_def
  request_item_def request_all_def request_no_key_def request_unknown_def
  request_preflight_def request_options_def

text \<open>
  C2. A request to a server set up by the registration functions, whose path splits
  (the read of \<^verbatim>\<open>path_with_query_parts[0]\<close> is in range) and that is resolved to a route
  \<open>r\<close>: if the auth handler returns false for \<open>r\<close> and the presented credential, the
  dispatcher writes status 401 with reason \<^verbatim>\<open>Unauthorized\<close>, the JSON content type and
  the fixed body naming the credential header, as one final chunk, and calls no handler.
\<close>

theorem unauthenticated_request_gets_401:
  assumes "srv = configure x (HttpServer cors) calls"
    and "compute_locals x srv req = Inr l"
    and "matched_route srv l = Some r"
    and "auth_handler srv = Some authenticate"
    and "\<not> authenticate r (l_auth_key_from_header l)"
  shows "\<exists>evs. catch_all_handler x srv req = Inr evs \<and> handler_calls evs = [] \<and>
           evs = [H2o_start_response
                   \<lparr>status = 401, reason = ''Unauthorized'',
                    res_headers = (if cors_enabled srv then [(''access-control-allow-origin'', ''*'')] else [])
                      @ [(''content-type'', ''application/json; charset=utf-8'')]\<rparr>,
                 H2o_send (''{\"message\": \"Forbidden - a valid `'' @ auth_header x @
                           ''` header must be sent.\"}'') H2O_SEND_STATE_FINAL]"
proof -
  have "catch_all_handler x srv req = Inr (send_401_unauthorized x (l_res_headers l))"
    using catch_all_matched [OF assms(1-3)] assms(4,5) by (simp add: dispatch_route_def)
  moreover have "send_401_unauthorized x (l_res_headers l) =
      [H2o_start_response
                   \<lparr>status = 401, reason = ''Unauthorized'',
                    res_headers = (if cors_enabled srv then [(''access-control-allow-origin'', ''*'')] else [])
                      @ [(''content-type'', ''application/json; charset=utf-8'')]\<rparr>,
                 H2o_send (''{\"message\": \"Forbidden - a valid `'' @ auth_header x @
                           ''` header must be sent.\"}'') H2O_SEND_STATE_FINAL]"
    unfolding send_401_unauthorized_def Let_def c_str_401
    by (simp add: reason_simps content_type_json_def compute_locals_fields(3) [OF assms(2)])
  ultimately show ?thesis by simp
qed


lemma locals_no_key:
  "compute_locals sample_externals example_server request_no_key
     = Inr (locals_of ''GET'' [''items'', ''42''] Map.empty [])"
  by (simp add: ex_defs compute_locals_def locals_of_def parse_query_def auth_header_def c_str_def)

lemma locals_item:
  "compute_locals sample_externals example_server request_item
     = Inr (locals_of ''GET'' [''items'', ''42''] [''id'' \<mapsto> ''7'', ''x'' \<mapsto> ''1''] ''secret'')"
  by (simp add: ex_defs compute_locals_def locals_of_def parse_query_def auth_header_def c_str_def
      match_at_def is_key_char_def)

lemma locals_all:
  "compute_locals sample_externals example_server request_all
     = Inr (locals_of ''GET'' [''items'', ''all''] Map.empty ''secret'')"
  by (simp add: ex_defs compute_locals_def locals_of_def parse_query_def auth_header_def c_str_def)

lemma locals_unknown:
  "compute_locals sample_externals example_server request_unknown
     = Inr (locals_of ''GET'' [''nope''] Map.empty [])"
  by (simp add: ex_defs compute_locals_def locals_of_def parse_query_def auth_header_def c_str_def)

lemma locals_preflight:
  "compute_locals sample_externals example_server request_preflight
     = Inr (locals_of ''OPTIONS'' [''items'', ''42''] Map.empty [])"
  by (simp add: ex_defs compute_locals_def locals_of_def parse_query_def auth_header_def c_str_def)

lemma locals_options:
  "compute_locals sample_externals example_server request_options
     = Inr (locals_of ''OPTIONS'' [''items'', ''42''] Map.empty [])"
  by (simp add: ex_defs compute_locals_def locals_of_def parse_query_def auth_header_def c_str_def)

lemma example_routes:
  "routes example_server =
     [\<lparr>http_method = ''GET'', path_parts = [''items'', '':id''], handler = 1, async = False\<rparr>,
      \<lparr>http_method = ''GET'', path_parts = [''items'', ''all''], handler = 2, async = False\<rparr>,
      \<lparr>http_method = ''GET'', path_parts = ['':kind'', ''all''], handler = 3, async = False\<rparr>,
      \<lparr>http_method = ''POST'', path_parts = [''items''], handler = 4, async = True\<rparr>]"
  and example_cors: "cors_enabled example_server"
  and example_auth: "auth_handler example_server = Some (\<lambda>r k. k = ''secret'')"
  by (simp_all add: ex_defs)

lemma matched_no_key:
  "matched_route example_server (locals_of ''GET'' [''items'', ''42''] qm key)
   = Some \<lparr>http_method = ''GET'', path_parts = [''items'', '':id''], handler = 1, async = False\<rparr>"
  by (simp add: example_routes matched_route_def locals_of_def route_matches_def is_param_def)

text \<open>The concrete server, \<^verbatim>\<open>GET /items/42\<close> without a credential.\<close>

theorem unauthenticated_witness:
  "example_server = configure sample_externals (HttpServer True) example_calls
   \<and> compute_locals sample_externals example_server request_no_key
        = Inr (locals_of ''GET'' [''items'', ''42''] Map.empty [])
   \<and> matched_route example_server (locals_of ''GET'' [''items'', ''42''] Map.empty [])
        = Some \<lparr>http_method = ''GET'', path_parts = [''items'', '':id''], handler = 1, async = False\<rparr>
   \<and> auth_handler example_server = Some (\<lambda>r k. k = ''secret'')
   \<and> l_auth_key_from_header (locals_of ''GET'' [''items'', ''42''] Map.empty []) \<noteq> ''secret''
   \<and> catch_all_handler sample_externals example_server request_no_key =
       Inr [H2o_start_response
              \<lparr>status = 401, reason = ''Unauthorized'',
               res_headers = [(''access-control-allow-origin'', ''*''),
                              (''content-type'', ''application/json; charset=utf-8'')]\<rparr>,
            H2o_send ''{\"message\": \"Forbidden - a valid `x-typesense-api-key` header must be sent.\"}''
              H2O_SEND_STATE_FINAL]"
  using unauthenticated_request_gets_401 [of example_server sample_externals True example_calls
      request_no_key "locals_of ''GET'' [''items'', ''42''] Map.empty []"
      "\<lparr>http_method = ''GET'', path_parts = [''items'', '':id''], handler = 1, async = False\<rparr>"
      "\<lambda>r k. k = ''secret''"]
    locals_no_key matched_no_key example_auth example_cors
  by (simp add: example_server_def [symmetric])
     (simp add: locals_of_def sample_externals_def auth_header_def c_str_def)

subsection \<open>No route\<close>

text \<open>
  C3 (amended). A request whose path splits, that is not intercepted as a CORS preflight
  and that no registered route accepts gets status 404, reason \<^verbatim>\<open>Not Found\<close>, the
  content type \<^verbatim>\<open>application/json; charset=utf-8\<close> and, as one final chunk, the body
  \<^verbatim>\<open>{ "message": "Not Found"}\<close>: the bytes of the literal at line 366, with a space
  after the opening brace.
\<close>

theorem unmatched_request_gets_404:
  assumes "compute_locals x srv req = Inr l"
    and "preflight srv req = None"
    and "matched_route srv l = None"
  shows "catch_all_handler x srv req =
           Inr [H2o_start_response
                  \<lparr>status = 404, reason = ''Not Found'',
                   res_headers =
                     (if cors_enabled srv then [(''access-control-allow-origin'', ''*'')] else [])
                     @ [(''content-type'', ''application/json; charset=utf-8'')]\<rparr>,
                H2o_send ''{ \"message\": \"Not Found\"}'' H2O_SEND_STATE_FINAL]"
  using assms
  by (simp add: catch_all_handler_def route_loop_find matched_route_def send_404_def
      reason_simps content_type_json_def compute_locals_fields(3) [OF assms(1)])

lemma matched_unknown:
  "matched_route example_server (locals_of ''GET'' [''nope''] qm key) = None"
  by (simp add: example_routes matched_route_def locals_of_def route_matches_def is_param_def)

lemma preflight_unknown: "preflight example_server request_unknown = None"
  by (simp add: preflight_def request_unknown_def)

text \<open>The concrete server, \<^verbatim>\<open>GET /nope\<close>.\<close>

theorem unmatched_request_witness:
  "compute_locals sample_externals example_server request_unknown
     = Inr (locals_of ''GET'' [''nope''] Map.empty [])
   \<and> preflight example_server request_unknown = None
   \<and> matched_route example_server (locals_of ''GET'' [''nope''] Map.empty []) = None
   \<and> catch_all_handler sample_externals example_server request_unknown =
       Inr [H2o_start_response
              \<lparr>status = 404, reason = ''Not Found'',
               res_headers = [(''access-control-allow-origin'', ''*''),
                              (''content-type'', ''application/json; charset=utf-8'')]\<rparr>,
            H2o_send ''{ \"message\": \"Not Found\"}'' H2O_SEND_STATE_FINAL]"
  using unmatched_request_gets_404 [OF locals_unknown preflight_unknown matched_unknown]
    locals_unknown preflight_unknown matched_unknown example_cors
  by simp

text \<open>
  C3 as the specification words it fails there: the body written is not
  \<^verbatim>\<open>{"message": "Not Found"}\<close>.
\<close>

theorem not_found_body_has_a_space:
  "compute_locals sample_externals example_server request_unknown
     = Inr (locals_of ''GET'' [''nope''] Map.empty [])
   \<and> preflight example_server request_unknown = None
   \<and> matched_route example_server (locals_of ''GET'' [''nope''] Map.empty []) = None
   \<and> sent_bodies (projr (catch_all_handler sample_externals example_server request_unknown))
       = [''{ \"message\": \"Not Found\"}'']
   \<and> sent_bodies (projr (catch_all_handler sample_externals example_server request_unknown))
       \<noteq> [''{\"message\": \"Not Found\"}'']"
proof -
  have "catch_all_handler sample_externals example_server request_unknown
          = Inr (send_404 [(''access-control-allow-origin'', ''*'')])"
    using locals_unknown preflight_unknown matched_unknown [of Map.empty "[]"]
    by (simp add: catch_all_handler_def route_loop_find matched_route_def locals_of_def)
  then show ?thesis
    using locals_unknown preflight_unknown matched_unknown by (simp add: send_404_def)
qed

subsection \<open>CORS preflight\<close>

lemma compute_locals_cors_only:
  "cors_enabled srv' = cors_enabled srv \<Longrightarrow> compute_locals x srv' req = compute_locals x srv req"
  by (simp add: compute_locals_def)

text \<open>
  C6. With CORS enabled, an \<^verbatim>\<open>OPTIONS\<close> request (whose path splits) that carries an
  \<^verbatim>\<open>access-control-request-headers\<close> header is answered with status 200, an empty body
  sent as the final chunk, and the headers \<^verbatim>\<open>access-control-allow-origin: *\<close>,
  \<^verbatim>\<open>access-control-allow-methods: POST, GET, DELETE, PUT, PATCH, OPTIONS\<close>,
  \<^verbatim>\<open>access-control-allow-headers\<close> echoing the requested headers and
  \<^verbatim>\<open>access-control-max-age: 86400\<close>, whatever the route table and the auth handler are;
  no handler is called. Without that header the request goes to the route loop.
\<close>

theorem cors_preflight_is_answered_directly:
  assumes "compute_locals x srv req = Inr l"
    and "cors_enabled srv"
    and "req_method req = ''OPTIONS''"
  shows "(\<forall>v. h2o_find_header_by_str (headers req) ''access-control-request-headers'' = Some v \<longrightarrow>
            (\<forall>rs ah. catch_all_handler x (srv\<lparr>routes := rs, auth_handler := ah\<rparr>) req =
               Inr [H2o_start_response
                      \<lparr>status = 200, reason = ''OK'',
                       res_headers =
                         [(''access-control-allow-origin'', ''*''),
                          (''access-control-allow-methods'', ''POST, GET, DELETE, PUT, PATCH, OPTIONS''),
                          (''access-control-allow-headers'', v),
                          (''access-control-max-age'', ''86400'')]\<rparr>,
                    H2o_send [] H2O_SEND_STATE_FINAL]))
       \<and> (h2o_find_header_by_str (headers req) ''access-control-request-headers'' = None \<longrightarrow>
            catch_all_handler x srv req = route_loop x srv l (routes srv))"
proof (intro conjI allI impI)
  fix v rs ah
  assume v: "h2o_find_header_by_str (headers req) ''access-control-request-headers'' = Some v"
  let ?srv = "srv\<lparr>routes := rs, auth_handler := ah\<rparr>"
  have "compute_locals x ?srv req = Inr l"
    using assms(1) compute_locals_cors_only [of ?srv srv x req] by simp
  moreover have "preflight ?srv req = Some v"
    using assms(2,3) v by (simp add: preflight_def)
  ultimately show "catch_all_handler x ?srv req =
               Inr [H2o_start_response
                      \<lparr>status = 200, reason = ''OK'',
                       res_headers =
                         [(''access-control-allow-origin'', ''*''),
                          (''access-control-allow-methods'', ''POST, GET, DELETE, PUT, PATCH, OPTIONS''),
                          (''access-control-allow-headers'', v),
                          (''access-control-max-age'', ''86400'')]\<rparr>,
                    H2o_send [] H2O_SEND_STATE_FINAL]"
    using assms(2) compute_locals_fields(3) [OF assms(1)]
    by (simp add: catch_all_handler_def send_preflight_def reason_simps)
next
  assume "h2o_find_header_by_str (headers req) ''access-control-request-headers'' = None"
  then have "preflight srv req = None" by (simp add: preflight_def)
  then show "catch_all_handler x srv req = route_loop x srv l (routes srv)"
    using assms(1) by (simp add: catch_all_handler_def)
qed

lemma preflight_example:
  "h2o_find_header_by_str (headers request_preflight) ''access-control-request-headers'' = Some ''X-Foo''"
  "req_method request_preflight = ''OPTIONS''"
  "h2o_find_header_by_str (headers request_options) ''access-control-request-headers'' = None"
  "req_method request_options = ''OPTIONS''"
  by (simp_all add: request_preflight_def request_options_def)

lemma options_falls_through:
  "route_loop sample_externals example_server (locals_of ''OPTIONS'' [''items'', ''42''] Map.empty [])
     (routes example_server) = Inr (send_404 [(''access-control-allow-origin'', ''*'')])"
  by (simp add: example_routes locals_of_def)

text \<open>
  The concrete server, \<^verbatim>\<open>OPTIONS /items/42\<close> with and without the request header.
\<close>

theorem cors_preflight_witness:
  "compute_locals sample_externals example_server request_preflight
     = Inr (locals_of ''OPTIONS'' [''items'', ''42''] Map.empty [])
   \<and> cors_enabled example_server
   \<and> req_method request_preflight = ''OPTIONS''
   \<and> h2o_find_header_by_str (headers request_preflight) ''access-control-request-headers''
       = Some ''X-Foo''
   \<and> catch_all_handler sample_externals example_server request_preflight =
       Inr [H2o_start_response
              \<lparr>status = 200, reason = ''OK'',
               res_headers =
                 [(''access-control-allow-origin'', ''*''),
                  (''access-control-allow-methods'', ''POST, GET, DELETE, PUT, PATCH, OPTIONS''),
                  (''access-control-allow-headers'', ''X-Foo''),
                  (''access-control-max-age'', ''86400'')]\<rparr>,
            H2o_send [] H2O_SEND_STATE_FINAL]
   \<and> compute_locals sample_externals example_server request_options
     = Inr (locals_of ''OPTIONS'' [''items'', ''42''] Map.empty [])
   \<and> req_method request_options = ''OPTIONS''
   \<and> h2o_find_header_by_str (headers request_options) ''access-control-request-headers'' = None
   \<and> catch_all_handler sample_externals example_server request_options
       = Inr (send_404 [(''access-control-allow-origin'', ''*'')])"
proof -
  have same: "example_server\<lparr>routes := routes example_server,
                auth_handler := auth_handler example_server\<rparr> = example_server" by simp
  have "catch_all_handler sample_externals
          (example_server\<lparr>routes := routes example_server,
             auth_handler := auth_handler example_server\<rparr>) request_preflight =
       Inr [H2o_start_response
              \<lparr>status = 200, reason = ''OK'',
               res_headers =
                 [(''access-control-allow-origin'', ''*''),
                  (''access-control-allow-methods'', ''POST, GET, DELETE, PUT, PATCH, OPTIONS''),
                  (''access-control-allow-headers'', ''X-Foo''),
                  (''access-control-max-age'', ''86400'')]\<rparr>,
            H2o_send [] H2O_SEND_STATE_FINAL]"
    using cors_preflight_is_answered_directly
        [OF locals_preflight example_cors preflight_example(2)] preflight_example(1)
    by blast
  moreover have "catch_all_handler sample_externals example_server request_options
       = Inr (send_404 [(''access-control-allow-origin'', ''*'')])"
    using cors_preflight_is_answered_directly
        [OF locals_options example_cors preflight_example(4)] preflight_example(3)
      options_falls_through
    by simp
  ultimately show ?thesis
    unfolding same
    using locals_preflight locals_options example_cors preflight_example by simp
qed

subsection \<open>Registration order\<close>

lemma first_match_least:
  "i < length rs \<Longrightarrow> route_matches (rs ! i) m given \<Longrightarrow>
   first_match rs m given \<le> i
   \<and> find (\<lambda>r. route_matches r m given) rs = Some (rs ! first_match rs m given)
   \<and> route_matches (rs ! first_match rs m given) m given
   \<and> (\<forall>k'<first_match rs m given. \<not> route_matches (rs ! k') m given)"
proof (induction rs arbitrary: i)
  case Nil
  then show ?case by simp
next
  case (Cons r rs)
  show ?case
  proof (cases "route_matches r m given")
    case True
    then show ?thesis by simp
  next
    case False
    with Cons.prems obtain i' where i: "i = Suc i'" by (cases i) auto
    with Cons.prems have "i' < length rs" "route_matches (rs ! i') m given" by simp_all
    note ih = Cons.IH [OF this]
    have "\<forall>k'<Suc (first_match rs m given). \<not> route_matches ((r # rs) ! k') m given"
    proof (intro allI impI)
      fix k' assume "k' < Suc (first_match rs m given)"
      then show "\<not> route_matches ((r # rs) ! k') m given" using False ih by (cases k') auto
    qed
    with ih False i show ?thesis by simp
  qed
qed

lemma parts_match_list_all2:
  "length rparts = length given \<and> parts_match rparts given \<longleftrightarrow>
   list_all2 (\<lambda>rpart given_part. rpart = given_part \<or> is_param rpart) rparts given"
  by (induction rparts given rule: parts_match.induct) auto

lemma dispatch_route_calls:
  assumes "auth_handler srv = Some a" and "a r (l_auth_key_from_header l)"
  shows "\<exists>evs. dispatch_route x srv l r = Inr evs \<and> handler_calls evs = [handler r]"
  using assms by (simp add: dispatch_route_def Let_def send_response_def)

text \<open>
  C1 (amended). Let R1 be registered before R2 on a server set up by the registration
  functions, and let a request (whose path splits) have the method and the segments
  that both accept. A route accepts a request exactly when the methods are equal and
  the segments correspond pairwise, a route segment being equal to the request segment
  or starting with \<^verbatim>\<open>:\<close>; that includes equal segment counts. The dispatcher resolves the
  request to the first registered route that accepts it, at position \<open>k\<close>: this is never
  R2, it is R1 or a route registered before R1, and it is R1 when no route before R1
  accepts the request. The resolved route is the one handed to the auth gate, and when
  the gate accepts, the handler called is that route's and no other.
\<close>

theorem first_registered_match_wins:
  assumes "srv = configure x (HttpServer cors) calls"
    and "compute_locals x srv req = Inr l"
    and "i < j" and "j < length (routes srv)"
    and "route_matches (routes srv ! i) (req_method req) (l_path_parts l)"
    and "route_matches (routes srv ! j) (req_method req) (l_path_parts l)"
    and "k = first_match (routes srv) (req_method req) (l_path_parts l)"
  shows "k \<le> i \<and> k \<noteq> j
       \<and> route_matches (routes srv ! k) (req_method req) (l_path_parts l)
       \<and> (\<forall>k'<k. \<not> route_matches (routes srv ! k') (req_method req) (l_path_parts l))
       \<and> ((\<forall>k'<i. \<not> route_matches (routes srv ! k') (req_method req) (l_path_parts l))
            \<longrightarrow> k = i)
       \<and> catch_all_handler x srv req = dispatch_route x srv l (routes srv ! k)
       \<and> (\<forall>a. auth_handler srv = Some a \<and> a (routes srv ! k) (l_auth_key_from_header l) \<longrightarrow>
            (\<exists>evs. catch_all_handler x srv req = Inr evs
               \<and> handler_calls evs = [handler (routes srv ! k)]))
       \<and> (\<forall>r m given. route_matches r m given \<longleftrightarrow>
             http_method r = m
             \<and> list_all2 (\<lambda>rpart given_part. rpart = given_part \<or> is_param rpart)
                 (path_parts r) given)"
proof -
  have m: "l_http_method l = req_method req" by (rule compute_locals_fields(1) [OF assms(2)])
  from assms(3,4) have "i < length (routes srv)" by simp
  from first_match_least [OF this assms(5)] assms(7)
  have k: "k \<le> i"
    "find (\<lambda>r. route_matches r (req_method req) (l_path_parts l)) (routes srv) = Some (routes srv ! k)"
    "route_matches (routes srv ! k) (req_method req) (l_path_parts l)"
    "\<forall>k'<k. \<not> route_matches (routes srv ! k') (req_method req) (l_path_parts l)"
    by simp_all
  from k(2) have mr: "matched_route srv l = Some (routes srv ! k)"
    by (simp add: matched_route_def m)
  have c: "catch_all_handler x srv req = dispatch_route x srv l (routes srv ! k)"
    by (rule catch_all_matched [OF assms(1,2) mr])
  have first: "(\<forall>k'<i. \<not> route_matches (routes srv ! k') (req_method req) (l_path_parts l))
                 \<longrightarrow> k = i"
    using k(1,3) by (auto simp: le_less)
  have calls: "\<forall>a. auth_handler srv = Some a \<and> a (routes srv ! k) (l_auth_key_from_header l) \<longrightarrow>
                 (\<exists>evs. catch_all_handler x srv req = Inr evs
                    \<and> handler_calls evs = [handler (routes srv ! k)])"
    unfolding c using dispatch_route_calls by blast
  have shape: "\<forall>r m given. route_matches r m given \<longleftrightarrow>
             http_method r = m
             \<and> list_all2 (\<lambda>rpart given_part. rpart = given_part \<or> is_param rpart)
                 (path_parts r) given"
    using parts_match_list_all2 by (auto simp: route_matches_def)
  from k(1) assms(3) have "k \<noteq> j" by simp
  with k(1,3,4) c first calls shape show ?thesis by (intro conjI)
qed

lemma example_matches:
  "route_matches (routes example_server ! 0) ''GET'' [''items'', ''all'']"
  "route_matches (routes example_server ! 1) ''GET'' [''items'', ''all'']"
  "route_matches (routes example_server ! 2) ''GET'' [''items'', ''all'']"
  by (simp_all add: example_routes route_matches_def is_param_def)

lemma request_all_fields: "req_method request_all = ''GET''"
  by (simp add: request_all_def)

lemma locals_of_simps:
  "l_http_method (locals_of m parts qm key) = m"
  "l_path_parts (locals_of m parts qm key) = parts"
  "l_query_map (locals_of m parts qm key) = qm"
  "l_auth_key_from_header (locals_of m parts qm key) = key"
  "l_req_body (locals_of m parts qm key) = []"
  "l_res_headers (locals_of m parts qm key) = [(''access-control-allow-origin'', ''*'')]"
  by (simp_all add: locals_of_def)

lemma request_all_outcome:
  "catch_all_handler sample_externals example_server request_all =
     Inr [Handler_call 1 \<lparr>params = [''id'' \<mapsto> ''all''], req_body = []\<rparr>,
          H2o_start_response
            \<lparr>status = 200, reason = ''OK'',
             res_headers = [(''access-control-allow-origin'', ''*''),
                            (''content-type'', ''application/json; charset=utf-8'')]\<rparr>,
          H2o_send ''h'' H2O_SEND_STATE_FINAL]"
proof -
  have "preflight example_server request_all = None"
    by (simp add: preflight_def request_all_def)
  then show ?thesis
    using locals_all
    by (simp add: catch_all_handler_def example_routes example_auth locals_of_simps
        dispatch_route_def is_param_def emplace_def send_response_def reason_simps
        content_type_json_def sample_externals_def c_str_def)
qed

lemma example_first_match:
  "first_match (routes example_server) ''GET'' [''items'', ''all''] = 0"
  by (simp add: example_routes route_matches_def is_param_def)

text \<open>
  The concrete server, \<^verbatim>\<open>GET /items/all\<close>: the routes at positions 0 and 1 both accept
  it, and the one at position 0 is taken.
\<close>

theorem first_registered_match_witness:
  "example_server = configure sample_externals (HttpServer True) example_calls
   \<and> compute_locals sample_externals example_server request_all
        = Inr (locals_of ''GET'' [''items'', ''all''] Map.empty ''secret'')
   \<and> (0::nat) < 1 \<and> 1 < length (routes example_server)
   \<and> route_matches (routes example_server ! 0) (req_method request_all) [''items'', ''all'']
   \<and> route_matches (routes example_server ! 1) (req_method request_all) [''items'', ''all'']
   \<and> first_match (routes example_server) (req_method request_all) [''items'', ''all''] = 0
   \<and> catch_all_handler sample_externals example_server request_all
       = dispatch_route sample_externals example_server
           (locals_of ''GET'' [''items'', ''all''] Map.empty ''secret'') (routes example_server ! 0)"
proof -
  let ?l = "locals_of ''GET'' [''items'', ''all''] Map.empty ''secret''"
  have len: "1 < length (routes example_server)" by (simp add: example_routes)
  have m0: "route_matches (routes example_server ! 0) (req_method request_all) (l_path_parts ?l)"
    and m1: "route_matches (routes example_server ! 1) (req_method request_all) (l_path_parts ?l)"
    and fm: "0 = first_match (routes example_server) (req_method request_all) (l_path_parts ?l)"
    using example_matches(1,2) example_first_match
    by (simp_all add: request_all_fields locals_of_simps)
  have "catch_all_handler sample_externals example_server request_all
       = dispatch_route sample_externals example_server ?l (routes example_server ! 0)"
    using first_registered_match_wins [of example_server sample_externals True example_calls
      request_all ?l 0 1 0, OF example_server_def locals_all zero_less_one len m0 m1 fm]
    by (elim conjE)
  then show ?thesis
    using locals_all len m0 m1 fm
    by (simp add: example_server_def [symmetric] locals_of_simps)
qed

text \<open>
  C1 as the specification words it fails for the pair at positions 1 and 2: both accept
  \<^verbatim>\<open>GET /items/all\<close>, and the handler called is that of the route at position 0, not
  that of position 1.
\<close>

theorem earlier_third_route_is_chosen:
  "(1::nat) < 2 \<and> 2 < length (routes example_server)
   \<and> http_method (routes example_server ! 1) = http_method (routes example_server ! 2)
   \<and> length (path_parts (routes example_server ! 1)) = length (path_parts (routes example_server ! 2))
   \<and> compute_locals sample_externals example_server request_all
        = Inr (locals_of ''GET'' [''items'', ''all''] Map.empty ''secret'')
   \<and> route_matches (routes example_server ! 1) (req_method request_all) [''items'', ''all'']
   \<and> route_matches (routes example_server ! 2) (req_method request_all) [''items'', ''all'']
   \<and> handler (routes example_server ! 1) = 2
   \<and> handler_calls (projr (catch_all_handler sample_externals example_server request_all)) = [1]
   \<and> handler_calls (projr (catch_all_handler sample_externals example_server request_all))
        \<noteq> [handler (routes example_server ! 1)]"
  using locals_all example_matches
  by (simp add: request_all_outcome request_all_fields example_routes)

subsection \<open>Path parameters\<close>

lemma emplace_simps:
  "m k = Some v \<Longrightarrow> emplace m k' v' k = Some v"
  "m k = None \<Longrightarrow> emplace m k v' k = Some v'"
  "m k = None \<Longrightarrow> k' \<noteq> k \<Longrightarrow> emplace m k' v' k = None"
  by (auto simp: emplace_def split: option.splits)

lemma extract_keeps:
  "m k = Some v \<Longrightarrow> extract_path_params rparts given m k = Some v"
  by (induction rparts given m rule: extract_path_params.induct) (simp_all add: emplace_simps)

lemma is_param_tl: "is_param p \<and> tl p = k \<longleftrightarrow> p = CHR '':'' # k"
  by (cases p) (auto simp: is_param_def)

lemma extract_binds:
  "length rparts = length given \<Longrightarrow> m k = None \<Longrightarrow> i < length rparts \<Longrightarrow>
   rparts ! i = CHR '':'' # k \<Longrightarrow> \<forall>j<i. rparts ! j \<noteq> CHR '':'' # k \<Longrightarrow>
   extract_path_params rparts given m k = Some (given ! i)"
proof (induction rparts given arbitrary: m i rule: list_induct2)
  case Nil
  then show ?case by simp
next
  case (Cons p rparts g given)
  show ?case
  proof (cases i)
    case 0
    with Cons.prems have p: "p = CHR '':'' # k" by simp
    then have "is_param p" "tl p = k" by (simp_all add: is_param_def)
    with Cons.prems(1) 0 show ?thesis by (simp add: extract_keeps emplace_simps)
  next
    case (Suc i')
    with Cons.prems have p: "p \<noteq> CHR '':'' # k" by auto
    let ?m = "if is_param p then emplace m (tl p) g else m"
    from p is_param_tl [of p k] have "is_param p \<longrightarrow> tl p \<noteq> k" by blast
    with Cons.prems(1) have none: "?m k = None" by (simp add: emplace_simps)
    from Cons.prems Suc have "i' < length rparts" "rparts ! i' = CHR '':'' # k"
      "\<forall>j<i'. rparts ! j \<noteq> CHR '':'' # k" by auto
    from Cons.IH [of ?m i', OF none this] show ?thesis using Suc by simp
  qed
qed

text \<open>
  C4. For a request that is resolved to a route and passes the auth gate, the handler of
  that route is called with a parameter map in which every key of the parsed query
  string keeps its value, also when a \<^verbatim>\<open>:name\<close> segment of the route has the same name,
  and a key that the query string does not have is bound to the request segment at the
  first \<^verbatim>\<open>:name\<close> segment of that name.
\<close>

theorem path_params_skip_if_present:
  assumes "srv = configure x (HttpServer cors) calls"
    and "compute_locals x srv req = Inr l"
    and "matched_route srv l = Some r"
    and "auth_handler srv = Some authenticate"
    and "authenticate r (l_auth_key_from_header l)"
  shows "\<exists>q evs. catch_all_handler x srv req = Inr (Handler_call (handler r) q # evs)
           \<and> handler_requests (Handler_call (handler r) q # evs) = [q]
           \<and> l_query_map l = parse_query (StringUtils_url_decode x)
                (case query_at req of None \<Rightarrow> [] | Some at \<Rightarrow> drop at (path req))
           \<and> (\<forall>k v. l_query_map l k = Some v \<longrightarrow> params q k = Some v)
           \<and> (\<forall>k i. l_query_map l k = None \<and> i < length (path_parts r)
                  \<and> path_parts r ! i = CHR '':'' # k
                  \<and> (\<forall>j<i. path_parts r ! j \<noteq> CHR '':'' # k)
                \<longrightarrow> params q k = Some (l_path_parts l ! i))"
proof -
  let ?q = "\<lparr>params = extract_path_params (path_parts r) (l_path_parts l) (l_query_map l),
             req_body = l_req_body l\<rparr>"
  let ?evs = "if \<not> async r
              then send_response (l_res_headers l)
                     (run_handler x (handler r) ?q (new_http_res x)) :: 'a event list
              else []"
  have len: "length (path_parts r) = length (l_path_parts l)"
    using matched_route_D(2) [OF assms(3)] by (simp add: route_matches_def)
  have "catch_all_handler x srv req = Inr (Handler_call (handler r) ?q # ?evs)"
    using catch_all_matched [OF assms(1-3)] assms(4,5) by (simp add: dispatch_route_def Let_def)
  moreover have "handler_requests (Handler_call (handler r) ?q # ?evs) = [?q]"
    by (simp add: send_response_def)
  moreover note compute_locals_fields(4) [OF assms(2)]
  moreover have "\<forall>k v. l_query_map l k = Some v \<longrightarrow> params ?q k = Some v"
    by (simp add: extract_keeps)
  moreover have "\<forall>k i. l_query_map l k = None \<and> i < length (path_parts r)
                  \<and> path_parts r ! i = CHR '':'' # k
                  \<and> (\<forall>j<i. path_parts r ! j \<noteq> CHR '':'' # k)
                \<longrightarrow> params ?q k = Some (l_path_parts l ! i)"
    using extract_binds [OF len] by simp
  ultimately show ?thesis by blast
qed

lemma request_item_outcome:
  "catch_all_handler sample_externals example_server request_item =
     Inr [Handler_call 1 \<lparr>params = [''id'' \<mapsto> ''7'', ''x'' \<mapsto> ''1''], req_body = []\<rparr>,
          H2o_start_response
            \<lparr>status = 200, reason = ''OK'',
             res_headers = [(''access-control-allow-origin'', ''*''),
                            (''content-type'', ''application/json; charset=utf-8'')]\<rparr>,
          H2o_send ''h'' H2O_SEND_STATE_FINAL]"
proof -
  have "preflight example_server request_item = None"
    by (simp add: preflight_def request_item_def)
  then show ?thesis
    using locals_item
    by (simp add: catch_all_handler_def example_routes example_auth locals_of_simps
        dispatch_route_def is_param_def emplace_def send_response_def reason_simps
        content_type_json_def sample_externals_def c_str_def)
qed

text \<open>
  The concrete server: \<^verbatim>\<open>GET /items/42?id=7&x=1\<close> keeps \<^verbatim>\<open>id=7\<close> from the query string,
  and \<^verbatim>\<open>GET /items/all\<close> binds \<^verbatim>\<open>id\<close> to the segment \<^verbatim>\<open>all\<close>.
\<close>

theorem path_params_witness:
  "example_server = configure sample_externals (HttpServer True) example_calls
   \<and> compute_locals sample_externals example_server request_item
        = Inr (locals_of ''GET'' [''items'', ''42''] [''id'' \<mapsto> ''7'', ''x'' \<mapsto> ''1''] ''secret'')
   \<and> matched_route example_server
        (locals_of ''GET'' [''items'', ''42''] [''id'' \<mapsto> ''7'', ''x'' \<mapsto> ''1''] ''secret'')
        = Some \<lparr>http_method = ''GET'', path_parts = [''items'', '':id''], handler = 1, async = False\<rparr>
   \<and> auth_handler example_server = Some (\<lambda>r k. k = ''secret'')
   \<and> map (\<lambda>q. params q ''id'')
        (handler_requests (projr (catch_all_handler sample_externals example_server request_item)))
       = [Some ''7'']
   \<and> compute_locals sample_externals example_server request_all
        = Inr (locals_of ''GET'' [''items'', ''all''] Map.empty ''secret'')
   \<and> matched_route example_server (locals_of ''GET'' [''items'', ''all''] Map.empty ''secret'')
        = Some \<lparr>http_method = ''GET'', path_parts = [''items'', '':id''], handler = 1, async = False\<rparr>
   \<and> map (\<lambda>q. params q ''id'')
        (handler_requests (projr (catch_all_handler sample_externals example_server request_all)))
       = [Some ''all'']"
proof -
  let ?r = "\<lparr>http_method = ''GET'', path_parts = [''items'', '':id''], handler = 1::nat, async = False\<rparr>"
  let ?li = "locals_of ''GET'' [''items'', ''42''] [''id'' \<mapsto> ''7'', ''x'' \<mapsto> ''1''] ''secret''"
  let ?la = "locals_of ''GET'' [''items'', ''all''] Map.empty ''secret''"
  have mi: "matched_route example_server ?li = Some ?r" by (rule matched_no_key)
  have ma: "matched_route example_server ?la = Some ?r"
    by (simp add: example_routes matched_route_def locals_of_def route_matches_def is_param_def)
  have ai: "(\<lambda>r k. k = ''secret'') ?r (l_auth_key_from_header ?li)"
    and aa: "(\<lambda>r k. k = ''secret'') ?r (l_auth_key_from_header ?la)"
    by (simp_all add: locals_of_simps)
  from path_params_skip_if_present [OF example_server_def locals_item mi example_auth ai]
  obtain q evs where q:
    "catch_all_handler sample_externals example_server request_item = Inr (Handler_call (handler ?r) q # evs)"
    "handler_requests (Handler_call (handler ?r) q # evs) = [q]"
    "\<forall>k v. l_query_map ?li k = Some v \<longrightarrow> params q k = Some v"
    by (elim exE conjE)
  have "l_query_map ?li ''id'' = Some ''7''" by (simp add: locals_of_simps)
  with q(3) have "params q ''id'' = Some ''7''" by blast
  with q(1,2) have i: "map (\<lambda>q. params q ''id'')
        (handler_requests (projr (catch_all_handler sample_externals example_server request_item)))
       = [Some ''7'']" by simp
  from path_params_skip_if_present [OF example_server_def locals_all ma example_auth aa]
  obtain q' evs' where q':
    "catch_all_handler sample_externals example_server request_all = Inr (Handler_call (handler ?r) q' # evs')"
    "handler_requests (Handler_call (handler ?r) q' # evs') = [q']"
    "\<forall>k i. l_query_map ?la k = None \<and> i < length (path_parts ?r)
                  \<and> path_parts ?r ! i = CHR '':'' # k
                  \<and> (\<forall>j<i. path_parts ?r ! j \<noteq> CHR '':'' # k)
                \<longrightarrow> params q' k = Some (l_path_parts ?la ! i)"
    by (elim exE conjE)
  have "l_query_map ?la ''id'' = None \<and> 1 < length (path_parts ?r)
                  \<and> path_parts ?r ! 1 = CHR '':'' # ''id''
                  \<and> (\<forall>j<1. path_parts ?r ! j \<noteq> CHR '':'' # ''id'')"
    by (simp add: locals_of_simps)
  with q'(3) have "params q' ''id'' = Some (l_path_parts ?la ! 1)" by blast
  then have "params q' ''id'' = Some ''all''" by (simp add: locals_of_simps)
  with q'(1,2) have a: "map (\<lambda>q. params q ''id'')
        (handler_requests (projr (catch_all_handler sample_externals example_server request_all)))
       = [Some ''all'']" by simp
  show ?thesis
    using locals_item locals_all mi ma example_auth i a
    by (simp add: example_server_def [symmetric])
qed

section \<open>Properties of the streaming generator\<close>

lemma after_turns_Suc:
  "after_turns h (Suc k) s = (case after_turns h k s of (rq, rs, d) \<Rightarrow> h rq rs d)"
proof (induction k arbitrary: s)
  case 0
  then show ?case by (cases s) simp
next
  case (Suc k)
  obtain rq rs d where s: "s = (rq, rs, d)" by (cases s)
  show ?case unfolding s using Suc [of "h rq rs d"] by simp
qed

lemma proceed_turns_Suc:
  "proceed_turns (Suc n) st =
     (case proceed_turns n st of Inl f \<Rightarrow> Inl f | Inr st' \<Rightarrow> response_proceed st')"
proof (induction n arbitrary: st)
  case 0
  then show ?case by (simp split: sum.splits)
next
  case (Suc n)
  show ?case
  proof (cases "response_proceed st")
    case (Inl f)
    then show ?thesis by simp
  next
    case (Inr st1)
    then show ?thesis using Suc [of st1] by simp
  qed
qed

lemma response_proceed_live:
  assumes "request_obj st = Some rq" "response_obj st = Some rs"
    and "generator_obj st = Some \<lparr>gen_handler = h, gen_data = d\<rparr>"
    and "h rq rs d = (rq', rs', d')"
  shows "response_proceed st =
     Inr (if final rs'
          then st\<lparr>request_obj := None, response_obj := None, generator_obj := None,
                  sends := sends st @ [(c_str (body rs'), H2O_SEND_STATE_FINAL)],
                  resumptions := Suc (resumptions st), disposed := True\<rparr>
          else st\<lparr>request_obj := Some rq', response_obj := Some rs',
                  generator_obj := Some \<lparr>gen_handler = h, gen_data = d'\<rparr>,
                  sends := sends st @ [(c_str (body rs'), H2O_SEND_STATE_IN_PROGRESS)],
                  resumptions := Suc (resumptions st)\<rparr>)"
  using assms by (simp add: response_proceed_def Let_def)

lemma proceed_turns_in_progress:
  assumes "request_obj st = Some rq" "response_obj st = Some rs"
    and "generator_obj st = Some \<lparr>gen_handler = h, gen_data = d\<rparr>"
    and "\<forall>k. 0 < k \<and> k \<le> n \<longrightarrow> \<not> final (response_after h rq rs d k)"
  shows "\<exists>st'. proceed_turns n st = Inr st'
     \<and> request_obj st' = Some (fst (after_turns h n (rq, rs, d)))
     \<and> response_obj st' = Some (response_after h rq rs d n)
     \<and> generator_obj st' = Some \<lparr>gen_handler = h, gen_data = snd (snd (after_turns h n (rq, rs, d)))\<rparr>
     \<and> sends st' = sends st @
          map (\<lambda>k. (chunk_after h rq rs d k, H2O_SEND_STATE_IN_PROGRESS)) [1..<Suc n]
     \<and> resumptions st' = resumptions st + n
     \<and> disposed st' = disposed st \<and> started st' = started st"
  using assms
proof (induction n)
  case 0
  then show ?case by (simp add: response_after_def)
next
  case (Suc n)
  from Suc.prems(4) have "\<forall>k. 0 < k \<and> k \<le> n \<longrightarrow> \<not> final (response_after h rq rs d k)" by simp
  from Suc.IH [OF Suc.prems(1-3) this] obtain st' where st':
    "proceed_turns n st = Inr st'"
    "request_obj st' = Some (fst (after_turns h n (rq, rs, d)))"
    "response_obj st' = Some (response_after h rq rs d n)"
    "generator_obj st' = Some \<lparr>gen_handler = h, gen_data = snd (snd (after_turns h n (rq, rs, d)))\<rparr>"
    "sends st' = sends st @
          map (\<lambda>k. (chunk_after h rq rs d k, H2O_SEND_STATE_IN_PROGRESS)) [1..<Suc n]"
    "resumptions st' = resumptions st + n"
    "disposed st' = disposed st" "started st' = started st"
    by blast
  obtain rq' rs' d' where a: "after_turns h (Suc n) (rq, rs, d) = (rq', rs', d')"
    by (cases "after_turns h (Suc n) (rq, rs, d)")
  then have step: "h (fst (after_turns h n (rq, rs, d))) (response_after h rq rs d n)
              (snd (snd (after_turns h n (rq, rs, d)))) = (rq', rs', d')"
    by (simp add: after_turns_Suc response_after_def split: prod.splits)
  have rs': "rs' = response_after h rq rs d (Suc n)" using a by (simp add: response_after_def)
  with Suc.prems(4) have nf: "\<not> final rs'" by simp
  have "proceed_turns (Suc n) st = response_proceed st'"
    by (simp only: proceed_turns_Suc st'(1) sum.case)
  also have "\<dots> = Inr (st'\<lparr>request_obj := Some rq', response_obj := Some rs',
                  generator_obj := Some \<lparr>gen_handler = h, gen_data = d'\<rparr>,
                  sends := sends st' @ [(c_str (body rs'), H2O_SEND_STATE_IN_PROGRESS)],
                  resumptions := Suc (resumptions st')\<rparr>)"
    using response_proceed_live [OF st'(2-4) step] nf by simp
  finally have e: "proceed_turns (Suc n) st =
        Inr (st'\<lparr>request_obj := Some rq', response_obj := Some rs',
                  generator_obj := Some \<lparr>gen_handler = h, gen_data = d'\<rparr>,
                  sends := sends st' @ [(c_str (body rs'), H2O_SEND_STATE_IN_PROGRESS)],
                  resumptions := Suc (resumptions st')\<rparr>)" .
  have f: "fst (after_turns h (Suc n) (rq, rs, d)) = rq'"
    "snd (snd (after_turns h (Suc n) (rq, rs, d))) = d'"
    by (simp_all only: a fst_conv snd_conv)
  have c: "chunk_after h rq rs d (Suc n) = c_str (body rs')"
    "response_after h rq rs d (Suc n) = rs'"
    by (simp_all only: chunk_after_def rs')
  show ?case
    by (simp add: e f c st'(5-8) del: after_turns.simps proceed_turns.simps)
qed

text \<open>
  C7 (amended). A streaming exchange is opened by \<^verbatim>\<open>stream_response\<close>, which itself sends
  one empty in-progress chunk. When the resumption handler is then driven across \<open>n\<close>
  write-readiness turns and sets \<^verbatim>\<open>final\<close> on the \<open>n\<close>-th turn only, the handler runs
  \<open>n\<close> times and each turn issues exactly one write with the body buffered after that
  turn, in progress for the turns before the last and final for the last: the transport
  sees \<open>n + 1\<close> writes over the exchange. With the final write the request is disposed
  and the request object, the response object and the generator are deleted.
\<close>

theorem stream_turns_write_once_each:
  assumes "0 < n"
    and "\<forall>k. 0 < k \<and> k < n \<longrightarrow> \<not> final (response_after h rq rs d k)"
    and "final (response_after h rq rs d n)"
  shows "\<exists>st. proceed_turns n (stream_response h rq rs d hs) = Inr st
           \<and> sends st = ([], H2O_SEND_STATE_IN_PROGRESS)
                # map (\<lambda>k. (chunk_after h rq rs d k, H2O_SEND_STATE_IN_PROGRESS)) [1..<n]
                @ [(chunk_after h rq rs d n, H2O_SEND_STATE_FINAL)]
           \<and> length (sends st) = Suc n
           \<and> resumptions st = n
           \<and> request_obj st = None \<and> response_obj st = None \<and> generator_obj st = None
           \<and> disposed st"
proof -
  from assms(1) obtain m where n: "n = Suc m" by (cases n) auto
  let ?st0 = "stream_response h rq rs d hs"
  have live: "request_obj ?st0 = Some rq" "response_obj ?st0 = Some rs"
    "generator_obj ?st0 = Some \<lparr>gen_handler = h, gen_data = d\<rparr>"
    by (simp_all add: stream_response_def)
  from assms(2) n have "\<forall>k. 0 < k \<and> k \<le> m \<longrightarrow> \<not> final (response_after h rq rs d k)" by simp
  from proceed_turns_in_progress [OF live this] obtain st' where st':
    "proceed_turns m ?st0 = Inr st'"
    "request_obj st' = Some (fst (after_turns h m (rq, rs, d)))"
    "response_obj st' = Some (response_after h rq rs d m)"
    "generator_obj st' = Some \<lparr>gen_handler = h, gen_data = snd (snd (after_turns h m (rq, rs, d)))\<rparr>"
    "sends st' = sends ?st0 @
          map (\<lambda>k. (chunk_after h rq rs d k, H2O_SEND_STATE_IN_PROGRESS)) [1..<Suc m]"
    "resumptions st' = resumptions ?st0 + m"
    by blast
  obtain rq' rs' d' where a: "after_turns h (Suc m) (rq, rs, d) = (rq', rs', d')"
    by (cases "after_turns h (Suc m) (rq, rs, d)")
  then have step: "h (fst (after_turns h m (rq, rs, d))) (response_after h rq rs d m)
              (snd (snd (after_turns h m (rq, rs, d)))) = (rq', rs', d')"
    by (simp add: after_turns_Suc response_after_def split: prod.splits)
  have rs': "rs' = response_after h rq rs d (Suc m)" using a by (simp add: response_after_def)
  with assms(3) n have f: "final rs'" by simp
  have "proceed_turns n ?st0 = response_proceed st'"
    by (simp only: n proceed_turns_Suc st'(1) sum.case)
  also have "\<dots> = Inr (st'\<lparr>request_obj := None, response_obj := None, generator_obj := None,
                  sends := sends st' @ [(c_str (body rs'), H2O_SEND_STATE_FINAL)],
                  resumptions := Suc (resumptions st'), disposed := True\<rparr>)"
    using response_proceed_live [OF st'(2-4) step] f by simp
  finally have e: "proceed_turns n ?st0 =
        Inr (st'\<lparr>request_obj := None, response_obj := None, generator_obj := None,
                  sends := sends st' @ [(c_str (body rs'), H2O_SEND_STATE_FINAL)],
                  resumptions := Suc (resumptions st'), disposed := True\<rparr>)" .
  have c: "chunk_after h rq rs d n = c_str (body rs')"
    by (simp only: chunk_after_def rs' n)
  have s0: "sends ?st0 = [([], H2O_SEND_STATE_IN_PROGRESS)]" "resumptions ?st0 = 0"
    by (simp_all add: stream_response_def)
  show ?thesis
    by (simp add: e c st'(5,6) s0 del: after_turns.simps proceed_turns.simps) (simp add: n)
qed

lemmas stream_example_defs = response_after_def chunk_after_def counting_handler_def
  endless_handler_def example_request_def example_response_def stream_response_def
  response_proceed_def response_stop_def c_str_def

lemma counting_three_turns:
  "\<not> final (response_after counting_handler example_request example_response 3 1)"
  "\<not> final (response_after counting_handler example_request example_response 3 2)"
  "final (response_after counting_handler example_request example_response 3 3)"
  "chunk_after counting_handler example_request example_response 3 1 = ''x''"
  "chunk_after counting_handler example_request example_response 3 2 = ''xx''"
  "chunk_after counting_handler example_request example_response 3 3 = ''xxx''"
  by (simp_all add: stream_example_defs eval_nat_numeral)

text \<open>Three turns of the counting handler.\<close>

theorem stream_turns_witness:
  "(0::nat) < 3
   \<and> \<not> final (response_after counting_handler example_request example_response 3 1)
   \<and> \<not> final (response_after counting_handler example_request example_response 3 2)
   \<and> final (response_after counting_handler example_request example_response 3 3)
   \<and> sends (projr (proceed_turns 3
         (stream_response counting_handler example_request example_response 3 [])))
       = [([], H2O_SEND_STATE_IN_PROGRESS), (''x'', H2O_SEND_STATE_IN_PROGRESS),
          (''xx'', H2O_SEND_STATE_IN_PROGRESS), (''xxx'', H2O_SEND_STATE_FINAL)]
   \<and> generator_obj (projr (proceed_turns 3
         (stream_response counting_handler example_request example_response 3 []))) = None"
proof -
  have nf: "\<forall>k. 0 < k \<and> k < 3 \<longrightarrow>
      \<not> final (response_after counting_handler example_request example_response 3 k)"
  proof (intro allI impI)
    fix k :: nat assume "0 < k \<and> k < 3"
    then have "k = 1 \<or> k = 2" by auto
    then show "\<not> final (response_after counting_handler example_request example_response 3 k)"
      using counting_three_turns(1,2) by auto
  qed
  have chunks: "map (\<lambda>k. (chunk_after counting_handler example_request example_response 3 k,
                  H2O_SEND_STATE_IN_PROGRESS)) [1..<3]
       = [(''x'', H2O_SEND_STATE_IN_PROGRESS), (''xx'', H2O_SEND_STATE_IN_PROGRESS)]"
    by (simp add: stream_example_defs eval_nat_numeral)
  from stream_turns_write_once_each [of 3 counting_handler example_request example_response 3 "[]",
      OF _ nf counting_three_turns(3)]
  obtain st where st:
    "proceed_turns 3 (stream_response counting_handler example_request example_response 3 []) = Inr st"
    "sends st = ([], H2O_SEND_STATE_IN_PROGRESS)
       # map (\<lambda>k. (chunk_after counting_handler example_request example_response 3 k,
                  H2O_SEND_STATE_IN_PROGRESS)) [1..<3]
       @ [(chunk_after counting_handler example_request example_response 3 3, H2O_SEND_STATE_FINAL)]"
    "generator_obj st = None"
    by auto
  have "sends st = [([], H2O_SEND_STATE_IN_PROGRESS), (''x'', H2O_SEND_STATE_IN_PROGRESS),
          (''xx'', H2O_SEND_STATE_IN_PROGRESS), (''xxx'', H2O_SEND_STATE_FINAL)]"
    unfolding st(2) chunks counting_three_turns(6) by simp
  with st(1,3) show ?thesis
    using counting_three_turns(1-3) by simp
qed

text \<open>
  C7 as the specification words it fails for one turn: the exchange has two writes, the
  empty chunk of \<^verbatim>\<open>stream_response\<close> and the final chunk of the turn.
\<close>

theorem one_turn_two_writes:
  "(0::nat) < 1
   \<and> final (response_after counting_handler example_request example_response 1 1)
   \<and> sends (projr (proceed_turns 1
         (stream_response counting_handler example_request example_response 1 [])))
       = [([], H2O_SEND_STATE_IN_PROGRESS), (''x'', H2O_SEND_STATE_FINAL)]
   \<and> length (sends (projr (proceed_turns 1
         (stream_response counting_handler example_request example_response 1 [])))) \<noteq> 1"
  by (simp add: stream_example_defs)

text \<open>
  C8. After any number \<open>k\<close> of turns in which the handler has not set \<^verbatim>\<open>final\<close> (none at
  all included, and whatever the handler would do later), the exchange is alive and
  \<^verbatim>\<open>response_stop\<close> returns normally: it disposes the request and deletes the request
  object, the response object and the generator, it does not call the resumption
  handler and it writes nothing. More generally \<^verbatim>\<open>response_stop\<close> does exactly this on
  every exchange whose three objects are alive, whatever the \<^verbatim>\<open>final\<close> flag says.
\<close>

theorem abrupt_close_releases_stream:
  assumes "\<forall>j. 0 < j \<and> j \<le> k \<longrightarrow> \<not> final (response_after h rq rs d j)"
  shows "(\<exists>st st'. proceed_turns k (stream_response h rq rs d hs) = Inr st
           \<and> resumptions st = k \<and> length (sends st) = Suc k
           \<and> response_stop st = Inr st'
           \<and> request_obj st' = None \<and> response_obj st' = None \<and> generator_obj st' = None
           \<and> disposed st'
           \<and> sends st' = sends st \<and> resumptions st' = resumptions st)
       \<and> (\<forall>st g rq' rs'. generator_obj st = Some g \<and> request_obj st = Some rq'
              \<and> response_obj st = Some rs' \<longrightarrow>
            response_stop st = Inr (st\<lparr>disposed := True, request_obj := None,
                                       response_obj := None, generator_obj := None\<rparr>))"
proof
  let ?st0 = "stream_response h rq rs d hs"
  have live: "request_obj ?st0 = Some rq" "response_obj ?st0 = Some rs"
    "generator_obj ?st0 = Some \<lparr>gen_handler = h, gen_data = d\<rparr>"
    by (simp_all add: stream_response_def)
  from proceed_turns_in_progress [OF live assms] obtain st where st:
    "proceed_turns k ?st0 = Inr st"
    "request_obj st = Some (fst (after_turns h k (rq, rs, d)))"
    "response_obj st = Some (response_after h rq rs d k)"
    "generator_obj st = Some \<lparr>gen_handler = h, gen_data = snd (snd (after_turns h k (rq, rs, d)))\<rparr>"
    "sends st = sends ?st0 @
          map (\<lambda>k. (chunk_after h rq rs d k, H2O_SEND_STATE_IN_PROGRESS)) [1..<Suc k]"
    "resumptions st = resumptions ?st0 + k"
    by blast
  have s0: "sends ?st0 = [([], H2O_SEND_STATE_IN_PROGRESS)]" "resumptions ?st0 = 0"
    by (simp_all add: stream_response_def)
  have stop: "response_stop st = Inr (st\<lparr>disposed := True, request_obj := None,
                                       response_obj := None, generator_obj := None\<rparr>)"
    using st(2-4) by (simp add: response_stop_def)
  have "resumptions st = k" "length (sends st) = Suc k"
    using st(5,6) s0 by simp_all
  with st(1) stop
  show "\<exists>st st'. proceed_turns k ?st0 = Inr st
           \<and> resumptions st = k \<and> length (sends st) = Suc k
           \<and> response_stop st = Inr st'
           \<and> request_obj st' = None \<and> response_obj st' = None \<and> generator_obj st' = None
           \<and> disposed st'
           \<and> sends st' = sends st \<and> resumptions st' = resumptions st"
    by (intro exI [of _ st] exI [of _ "st\<lparr>disposed := True, request_obj := None,
                                       response_obj := None, generator_obj := None\<rparr>"]) simp
next
  show "\<forall>st g rq' rs'. generator_obj st = Some g \<and> request_obj st = Some rq'
              \<and> response_obj st = Some rs' \<longrightarrow>
            response_stop st = Inr (st\<lparr>disposed := True, request_obj := None,
                                       response_obj := None, generator_obj := None\<rparr>)"
    by (simp add: response_stop_def)
qed

lemma endless_two_turns:
  "\<not> final (response_after endless_handler example_request example_response 0 1)"
  "\<not> final (response_after endless_handler example_request example_response 0 2)"
  by (simp_all add: stream_example_defs eval_nat_numeral)

lemma endless_run:
  "proceed_turns 2 (stream_response endless_handler example_request example_response 0 []) =
     Inr \<lparr>request_obj = Some example_request,
          response_obj = Some (example_response\<lparr>body := ''xx''\<rparr>),
          generator_obj = Some \<lparr>gen_handler = endless_handler, gen_data = 2\<rparr>,
          started = \<lparr>status = 200, reason = ''OK'', res_headers = [(''content-type'', ''text/plain'')]\<rparr>,
          disposed = False,
          sends = [([], H2O_SEND_STATE_IN_PROGRESS), (''x'', H2O_SEND_STATE_IN_PROGRESS),
                   (''xx'', H2O_SEND_STATE_IN_PROGRESS)],
          resumptions = 2\<rparr>"
  by (simp add: eval_nat_numeral response_proceed_def endless_handler_def stream_response_def
      example_response_def c_str_def reason_simps)

text \<open>Two turns of the handler that never sets \<^verbatim>\<open>final\<close>, then the abort.\<close>

theorem abrupt_close_witness:
  "\<not> final (response_after endless_handler example_request example_response 0 1)
   \<and> \<not> final (response_after endless_handler example_request example_response 0 2)
   \<and> sends (projr (response_stop (projr (proceed_turns 2
         (stream_response endless_handler example_request example_response 0 [])))))
       = [([], H2O_SEND_STATE_IN_PROGRESS), (''x'', H2O_SEND_STATE_IN_PROGRESS),
          (''xx'', H2O_SEND_STATE_IN_PROGRESS)]
   \<and> resumptions (projr (response_stop (projr (proceed_turns 2
         (stream_response endless_handler example_request example_response 0 []))))) = 2
   \<and> generator_obj (projr (response_stop (projr (proceed_turns 2
         (stream_response endless_handler example_request example_response 0 []))))) = None
   \<and> request_obj (projr (response_stop (projr (proceed_turns 2
         (stream_response endless_handler example_request example_response 0 []))))) = None
   \<and> response_obj (projr (response_stop (projr (proceed_turns 2
         (stream_response endless_handler example_request example_response 0 []))))) = None"
proof -
  have nf: "\<forall>j. 0 < j \<and> j \<le> 2 \<longrightarrow>
      \<not> final (response_after endless_handler example_request example_response 0 j)"
  proof (intro allI impI)
    fix j :: nat assume "0 < j \<and> j \<le> 2"
    then have "j = 1 \<or> j = 2" by auto
    then show "\<not> final (response_after endless_handler example_request example_response 0 j)"
      using endless_two_turns by auto
  qed
  from abrupt_close_releases_stream [OF nf, of "[]", THEN conjunct1]
  obtain st st' where
    "proceed_turns 2 (stream_response endless_handler example_request example_response 0 []) = Inr st"
    "response_stop st = Inr st'" "sends st' = sends st" "resumptions st' = resumptions st"
    "generator_obj st' = None" "request_obj st' = None" "response_obj st' = None"
    by (elim exE conjE)
  then have "st = projr (proceed_turns 2
         (stream_response endless_handler example_request example_response 0 []))"
    and "st' = projr (response_stop st)"
    and "sends st' = sends st" "resumptions st' = resumptions st"
    and "generator_obj st' = None" "request_obj st' = None" "response_obj st' = None"
    by simp_all
  moreover have "sends (projr (proceed_turns 2
         (stream_response endless_handler example_request example_response 0 [])))
       = [([], H2O_SEND_STATE_IN_PROGRESS), (''x'', H2O_SEND_STATE_IN_PROGRESS),
          (''xx'', H2O_SEND_STATE_IN_PROGRESS)]"
    and "resumptions (projr (proceed_turns 2
         (stream_response endless_handler example_request example_response 0 []))) = 2"
    by (simp_all add: endless_run)
  ultimately show ?thesis
    using endless_two_turns by metis
qed

section \<open>Properties of the message relay\<close>

lemma on_message_loop_log:
  "on_message_loop hs ms log = ([], log @ concat (map (handle_message hs) ms))"
  by (induction ms arbitrary: log) simp_all

lemma freed_append: "freed (xs @ ys) = freed xs @ freed ys"
  by (induction xs rule: freed.induct) simp_all

lemma callbacks_run_append: "callbacks_run (xs @ ys) = callbacks_run xs @ callbacks_run ys"
  by (induction xs rule: callbacks_run.induct) simp_all

lemma freed_handle: "freed (concat (map (handle_message hs) ms)) = ms"
  by (induction ms) (simp_all add: handle_message_def freed_append split: option.splits)

lemma callbacks_handle:
  "callbacks_run (concat (map (handle_message hs) ms)) =
     List.map_filter (\<lambda>m. map_option (\<lambda>h. (h, msg_data m)) (hs (msg_type m))) ms"
  by (induction ms) (simp_all add: handle_message_def callbacks_run_append split: option.splits)

text \<open>
  C9. The drain step empties the list it is given and handles the messages in list
  order, each exactly once: for one message it runs the callback registered for the
  message's type, if there is one, once, and then unlinks and frees the message. So the
  messages freed by a drain are exactly the pending ones, a message sent before the
  drain included. The destructor drains the inbox once and releases the receiver only
  after that, so every message pending at shutdown has been drained before the release.
  (Which thread runs the drain is not part of the model.)
\<close>

theorem drain_consumes_each_message_once:
  "inbox (on_message st) = []
   \<and> relay_log (on_message st) = relay_log st @ concat (map (handle_message (message_handlers st)) (inbox st))
   \<and> freed (relay_log (on_message st)) = freed (relay_log st) @ inbox st
   \<and> callbacks_run (relay_log (on_message st)) = callbacks_run (relay_log st) @
        List.map_filter (\<lambda>m. map_option (\<lambda>h. (h, msg_data m)) (message_handlers st (msg_type m)))
          (inbox st)
   \<and> handle_message (message_handlers st) m =
        (case message_handlers st (msg_type m) of Some h \<Rightarrow> [Callback h (msg_data m)] | None \<Rightarrow> [])
        @ [Unlink_delete m]
   \<and> freed (relay_log (on_message (send_message t d st)))
        = freed (relay_log st) @ inbox st @ [\<lparr>msg_type = c_str t, msg_data = d\<rparr>]
   \<and> inbox (destroy st) = []
   \<and> relay_log (destroy st) = relay_log (on_message st) @ [Release_receiver]
   \<and> freed (relay_log (destroy st)) = freed (relay_log st) @ inbox st"
  by (simp add: on_message_def on_message_loop_log destroy_def Let_def freed_append
      callbacks_run_append freed_handle callbacks_handle send_message_def handle_message_def
      split: option.splits)

text \<open>
  C10. A message whose type has no registered callback is unlinked and freed by the drain
  without any callback being run: sending such a message and draining leaves the inbox
  empty and adds to the log only the message's release, and the drain returns normally.
\<close>

theorem unregistered_type_is_discarded:
  assumes "message_handlers st (c_str t) = None"
  shows "inbox (on_message (send_message t d st)) = []
     \<and> relay_log (on_message (send_message t d st))
         = relay_log (on_message st) @ [Unlink_delete \<lparr>msg_type = c_str t, msg_data = d\<rparr>]
     \<and> callbacks_run (relay_log (on_message (send_message t d st)))
         = callbacks_run (relay_log (on_message st))
     \<and> (\<forall>m. message_handlers st (msg_type m) = None \<longrightarrow>
           handle_message (message_handlers st) m = [Unlink_delete m])"
  using assms
  by (simp add: on_message_def on_message_loop_log send_message_def handle_message_def
      callbacks_run_append)

lemma example_relay_facts:
  "message_handlers example_relay (c_str ''unknown'') = None"
  "relay_log (on_message example_relay)
     = [Callback 1 5, Unlink_delete \<lparr>msg_type = ''done'', msg_data = 5\<rparr>]"
  "c_str ''unknown'' = ''unknown''"
  by (simp_all add: example_relay_def send_message_def on_def c_str_def on_message_def
      handle_message_def)

text \<open>The concrete relay and a message of the type \<^verbatim>\<open>unknown\<close>.\<close>

theorem unregistered_type_witness:
  "message_handlers example_relay ''unknown'' = None
   \<and> relay_log (on_message (send_message ''unknown'' 7 example_relay))
     = [Callback 1 5, Unlink_delete \<lparr>msg_type = ''done'', msg_data = 5\<rparr>,
        Unlink_delete \<lparr>msg_type = ''unknown'', msg_data = 7\<rparr>]
   \<and> inbox (on_message (send_message ''unknown'' 7 example_relay)) = []"
proof -
  note c = example_relay_facts(3)
  note n = example_relay_facts(1)
  note t = unregistered_type_is_discarded [OF n, of 7,
      unfolded c example_relay_facts(2) append.simps]
  show ?thesis
    by (intro conjI, rule n [unfolded c], rule t [THEN conjunct2, THEN conjunct1],
        rule t [THEN conjunct1])
qed

end
